theory Spec2Isabelle
  imports Main
begin

section \<open>The shared-memory graph database: data model\<close>

text \<open>
  The embedding follows \<^verbatim>\<open>graph_vertex_sharedmem.hpp\<close>,
  \<^verbatim>\<open>graph_database_sharedmem.hpp\<close> and \<^verbatim>\<open>graph_edge_sharedmem.hpp\<close>.
  Pointers into shard storage are positions \<open>(shard, slot)\<close>; a C++ access that is
  undefined (an index past the end of a vector, a remainder by zero) or that trips
  \<^verbatim>\<open>ASSERT_TRUE\<close> is an explicit \<open>Inl\<close> result.
\<close>

type_synonym graph_vid_t = nat
type_synonym graph_shard_id_t = nat
type_synonym graph_field = string

datatype error = AssertionFailed | OutOfBounds | DivisionByZero

subsection \<open>Rows and values (collaborators of the core)\<close>

datatype graph_datum = NullDatum | IntDatum int | StringDatum string

text \<open>
  Modelled from the spec: \<^verbatim>\<open>graph_value\<close> (graph_value.hpp is not part of the
  sources). A value carries its current datum, the baseline of the last commit, a
  modified flag and a delta-commit flag.
\<close>

record graph_value =
  val_data :: graph_datum
  val_old :: graph_datum
  val_modified :: bool
  val_delta_commit :: bool

definition get_modified :: "graph_value \<Rightarrow> bool" where
  "get_modified v = val_modified v"

text \<open>
  Modelled from the spec: \<^verbatim>\<open>graph_value::post_commit_state\<close>, the post-commit
  operation that clears the modification flags and snapshots the current value as the
  new baseline.
\<close>

definition post_commit_state :: "graph_value \<Rightarrow> graph_value" where
  "post_commit_state v =
     v\<lparr>val_old := val_data v, val_modified := False, val_delta_commit := False\<rparr>"

text \<open>
  Modelled from the spec: \<^verbatim>\<open>graph_value::deepcopy\<close>, a structural copy. In a
  value model the copy is the value itself; \<^verbatim>\<open>free_data\<close> releases memory only.
\<close>

definition value_deepcopy :: "graph_value \<Rightarrow> graph_value" where
  "value_deepcopy v = v"

text \<open>
  Modelled from the spec: \<^verbatim>\<open>graph_row\<close> (graph_row.hpp is not part of the sources),
  an ordered sequence of values and the \<^verbatim>\<open>_is_vertex\<close> flag the database sets.
\<close>

record graph_row =
  row_values :: "graph_value list"
  is_vertex :: bool

definition num_fields :: "graph_row \<Rightarrow> nat" where
  "num_fields r = length (row_values r)"

definition null_value :: graph_value where
  "null_value = \<lparr>val_data = NullDatum, val_old = NullDatum,
                  val_modified = False, val_delta_commit = False\<rparr>"

text \<open>
  Modelled from the spec: the constructor \<^verbatim>\<open>graph_row(db, fields)\<close>, a row of all
  null values, one for each field of the schema.
\<close>

definition new_graph_row :: "graph_field list \<Rightarrow> graph_row" where
  "new_graph_row flds = \<lparr>row_values = map (\<lambda>_. null_value) flds, is_vertex = False\<rparr>"

definition row_deepcopy :: "graph_row \<Rightarrow> graph_row" where
  "row_deepcopy r = r\<lparr>row_values := map value_deepcopy (row_values r)\<rparr>"

subsection \<open>Shards\<close>

text \<open>
  Modelled from the spec: \<^verbatim>\<open>graph_shard_impl\<close> (graph_shard.hpp is not part of the
  sources): the vertex ids and rows mastered by the shard, the edges and their rows,
  and for a derived shard the position of each edge in the shard it was copied from.
\<close>

record graph_shard_impl =
  shard_id :: graph_shard_id_t
  vertex :: "graph_vid_t list"
  vertex_data :: "graph_row list"
  edge :: "(graph_vid_t \<times> graph_vid_t) list"
  edge_data :: "graph_row list"
  edgeid :: "nat list"

definition new_graph_shard :: graph_shard_impl where
  "new_graph_shard = \<lparr>shard_id = 0, vertex = [], vertex_data = [], edge = [],
                       edge_data = [], edgeid = []\<rparr>"

definition shard_num_vertices :: "graph_shard_impl \<Rightarrow> nat" where
  "shard_num_vertices sh = length (vertex sh)"

definition shard_num_edges :: "graph_shard_impl \<Rightarrow> nat" where
  "shard_num_edges sh = length (edge sh)"

text \<open>
  Modelled from the spec: \<^verbatim>\<open>graph_shard_impl::add_vertex\<close> and
  \<^verbatim>\<open>graph_shard_impl::add_edge\<close> store a structural copy of the row at the end of
  the shard and return its position.
\<close>

definition shard_add_vertex ::
  "graph_shard_impl \<Rightarrow> graph_vid_t \<Rightarrow> graph_row \<Rightarrow> nat \<times> graph_shard_impl" where
  "shard_add_vertex sh vid row =
     (shard_num_vertices sh,
      sh\<lparr>vertex := vertex sh @ [vid], vertex_data := vertex_data sh @ [row_deepcopy row]\<rparr>)"

definition shard_add_edge ::
  "graph_shard_impl \<Rightarrow> graph_vid_t \<Rightarrow> graph_vid_t \<Rightarrow> graph_row \<Rightarrow> nat \<times> graph_shard_impl" where
  "shard_add_edge sh source target row =
     (shard_num_edges sh,
      sh\<lparr>edge := edge sh @ [(source, target)], edge_data := edge_data sh @ [row_deepcopy row]\<rparr>)"

subsection \<open>Indices\<close>

text \<open>
  Modelled from the spec: \<^verbatim>\<open>graph_vertex_index\<close> (not part of the sources), a
  mapping from vid to a dense storage slot; a lookup miss is an absent result, which
  \<^verbatim>\<open>get_vertex\<close> treats as a slot past the end of the vertex store.
\<close>

type_synonym graph_vertex_index = "graph_vid_t \<rightharpoonup> nat"

definition has_vertex :: "graph_vertex_index \<Rightarrow> graph_vid_t \<Rightarrow> bool" where
  "has_vertex vi vid = (vi vid \<noteq> None)"

definition get_index :: "graph_vertex_index \<Rightarrow> graph_vid_t \<Rightarrow> nat option" where
  "get_index vi vid = vi vid"

definition index_add_vertex ::
  "graph_vertex_index \<Rightarrow> graph_vid_t \<Rightarrow> graph_row \<Rightarrow> nat \<Rightarrow> graph_vertex_index" where
  "index_add_vertex vi vid row pos = vi(vid \<mapsto> pos)"

text \<open>
  Modelled from the spec: \<^verbatim>\<open>graph_edge_index\<close> (not part of the sources), for one
  shard a mapping from vid to the positions of its incoming and of its outgoing edges;
  positions are appended on edge insertion and never removed.
\<close>

record graph_edge_index =
  in_edges :: "graph_vid_t \<Rightarrow> nat list"
  out_edges :: "graph_vid_t \<Rightarrow> nat list"

definition new_edge_index :: graph_edge_index where
  "new_edge_index = \<lparr>in_edges = (\<lambda>_. []), out_edges = (\<lambda>_. [])\<rparr>"

definition index_add_edge ::
  "graph_edge_index \<Rightarrow> graph_vid_t \<Rightarrow> graph_vid_t \<Rightarrow> nat \<Rightarrow> graph_edge_index" where
  "index_add_edge ei source target pos =
     (let ei1 = ei\<lparr>out_edges := (out_edges ei)(source := out_edges ei source @ [pos])\<rparr>
      in ei1\<lparr>in_edges := (in_edges ei1)(target := in_edges ei1 target @ [pos])\<rparr>)"

definition get_edge_index ::
  "graph_edge_index \<Rightarrow> bool \<Rightarrow> bool \<Rightarrow> graph_vid_t \<Rightarrow> nat list \<times> nat list" where
  "get_edge_index ei getIn getOut vid =
     ((if getIn then in_edges ei vid else []), (if getOut then out_edges ei vid else []))"

subsection \<open>The database\<close>

text \<open>
  \<^verbatim>\<open>vertex_store\<close> holds pointers to rows inside the master shards: a pointer is the
  pair of the shard and the slot in its \<^verbatim>\<open>vertex_data\<close>. A
  \<^verbatim>\<open>boost::unordered_set\<close> of shard ids is a duplicate-free list (its iteration
  order is not specified by the source; the model keeps insertion order). The counters
  are \<^verbatim>\<open>size_t\<close>; they count entries held in memory, so they are natural numbers
  here. The fields \<^verbatim>\<open>_num_edges\<close> and \<^verbatim>\<open>_num_shards\<close> are \<open>m_num_edges\<close> and
  \<open>m_num_shards\<close>, since a name cannot start with an underscore.
\<close>

type_synonym row_ptr = "graph_shard_id_t \<times> nat"

record graph_database_sharedmem =
  vertex_fields :: "graph_field list"
  edge_fields :: "graph_field list"
  shards :: "graph_shard_impl list"
  vertex_store :: "row_ptr list"
  vertex_index :: graph_vertex_index
  edge_index :: "graph_edge_index list"
  vid2master :: "graph_vid_t \<rightharpoonup> graph_shard_id_t"
  vid2mirrors :: "graph_vid_t \<rightharpoonup> graph_shard_id_t list"
  m_num_edges :: nat
  m_num_shards :: nat

text \<open>The constructor: \<open>numshards\<close> empty shards numbered from 0, empty indices.\<close>

definition new_database ::
  "graph_field list \<Rightarrow> graph_field list \<Rightarrow> nat \<Rightarrow> graph_database_sharedmem" where
  "new_database vfields efields numshards =
     \<lparr>vertex_fields = vfields, edge_fields = efields,
      shards = map (\<lambda>i. new_graph_shard\<lparr>shard_id := i\<rparr>) [0..<numshards],
      vertex_store = [],
      vertex_index = Map.empty,
      edge_index = replicate numshards new_edge_index,
      vid2master = Map.empty,
      vid2mirrors = Map.empty,
      m_num_edges = 0,
      m_num_shards = numshards\<rparr>"

definition num_vertices :: "graph_database_sharedmem \<Rightarrow> nat" where
  "num_vertices db = length (vertex_store db)"

definition num_edges :: "graph_database_sharedmem \<Rightarrow> nat" where
  "num_edges db = m_num_edges db"

definition num_shards :: "graph_database_sharedmem \<Rightarrow> nat" where
  "num_shards db = m_num_shards db"

text \<open>
  \<^verbatim>\<open>operator[]\<close> of \<^verbatim>\<open>boost::unordered_map\<close>: a missing key is inserted with
  the default value, which is returned.
\<close>

definition map_index :: "('k \<rightharpoonup> 'v) \<Rightarrow> 'k \<Rightarrow> 'v \<Rightarrow> 'v \<times> ('k \<rightharpoonup> 'v)" where
  "map_index m k dflt = (case m k of Some v \<Rightarrow> (v, m) | None \<Rightarrow> (dflt, m(k \<mapsto> dflt)))"

definition get_master ::
  "graph_database_sharedmem \<Rightarrow> graph_vid_t \<Rightarrow> graph_shard_id_t \<times> graph_database_sharedmem" where
  "get_master db vid =
     (let (m, vm) = map_index (vid2master db) vid 0 in (m, db\<lparr>vid2master := vm\<rparr>))"

subsection \<open>Vertex handles\<close>

text \<open>
  \<^verbatim>\<open>graph_vertex_sharedmem\<close>: the vid, the pointer to the row in the master shard, the
  master shard and a copy of the mirror set taken when the handle is made.
\<close>

record graph_vertex_sharedmem =
  vid :: graph_vid_t
  vdata :: row_ptr
  master :: graph_shard_id_t
  mirrors :: "graph_shard_id_t list"

definition get_id :: "graph_vertex_sharedmem \<Rightarrow> graph_vid_t" where
  "get_id h = vid h"

definition master_shard :: "graph_vertex_sharedmem \<Rightarrow> graph_shard_id_t" where
  "master_shard h = master h"

definition get_num_shards :: "graph_vertex_sharedmem \<Rightarrow> nat" where
  "get_num_shards h = length (mirrors h) + 1"

definition get_shard_list :: "graph_vertex_sharedmem \<Rightarrow> graph_shard_id_t list" where
  "get_shard_list h = mirrors h"

text \<open>Reading and writing the vertex row a pointer names.\<close>

definition vertex_row :: "graph_database_sharedmem \<Rightarrow> row_ptr \<Rightarrow> graph_row option" where
  "vertex_row db p =
     (case p of (s, i) \<Rightarrow>
        if s < length (shards db) \<and> i < length (vertex_data (shards db ! s))
        then Some (vertex_data (shards db ! s) ! i) else None)"

definition store_vertex_row ::
  "graph_database_sharedmem \<Rightarrow> row_ptr \<Rightarrow> graph_row \<Rightarrow> graph_database_sharedmem" where
  "store_vertex_row db p r =
     (case p of (s, i) \<Rightarrow>
        db\<lparr>shards := (shards db)[s := (shards db ! s)
              \<lparr>vertex_data := (vertex_data (shards db ! s))[i := r]\<rparr>]\<rparr>)"

text \<open>
  The loop of \<^verbatim>\<open>write_changes\<close> (and of the vertex part of \<^verbatim>\<open>commit_shard\<close>):
  every field that is modified gets its post-commit state.
\<close>

definition commit_value :: "graph_value \<Rightarrow> graph_value" where
  "commit_value val = (if get_modified val then post_commit_state val else val)"

definition row_write_changes :: "graph_row \<Rightarrow> graph_row" where
  "row_write_changes r = r\<lparr>row_values := map commit_value (row_values r)\<rparr>"

definition write_changes ::
  "graph_vertex_sharedmem \<Rightarrow> graph_database_sharedmem \<Rightarrow> error + graph_database_sharedmem" where
  "write_changes h db =
     (case vertex_row db (vdata h) of
        None \<Rightarrow> Inl OutOfBounds
      | Some r \<Rightarrow> Inr (store_vertex_row db (vdata h) (row_write_changes r)))"

definition write_changes_async ::
  "graph_vertex_sharedmem \<Rightarrow> graph_database_sharedmem \<Rightarrow> error + graph_database_sharedmem" where
  "write_changes_async h db = write_changes h db"

definition refresh ::
  "graph_vertex_sharedmem \<Rightarrow> graph_database_sharedmem \<Rightarrow> error + graph_database_sharedmem" where
  "refresh h db = Inr db"

definition write_and_refresh ::
  "graph_vertex_sharedmem \<Rightarrow> graph_database_sharedmem \<Rightarrow> error + graph_database_sharedmem" where
  "write_and_refresh h db = write_changes h db"

subsection \<open>Edge handles\<close>

text \<open>
  \<^verbatim>\<open>graph_edge_sharedmem\<close>: source, target, the pointer to the row (a slot of the
  \<^verbatim>\<open>edge_data\<close> of a shard) and the owning shard. Its four synchronisation
  methods have empty bodies.
\<close>

record graph_edge_sharedmem =
  sourceid :: graph_vid_t
  targetid :: graph_vid_t
  cache :: row_ptr
  edge_master :: graph_shard_id_t

definition get_src :: "graph_edge_sharedmem \<Rightarrow> graph_vid_t" where
  "get_src e = sourceid e"

definition get_dest :: "graph_edge_sharedmem \<Rightarrow> graph_vid_t" where
  "get_dest e = targetid e"

definition edge_row :: "graph_database_sharedmem \<Rightarrow> row_ptr \<Rightarrow> graph_row option" where
  "edge_row db p =
     (case p of (s, i) \<Rightarrow>
        if s < length (shards db) \<and> i < length (edge_data (shards db ! s))
        then Some (edge_data (shards db ! s) ! i) else None)"

definition edge_write_changes ::
  "graph_edge_sharedmem \<Rightarrow> graph_database_sharedmem \<Rightarrow>
   graph_edge_sharedmem \<times> graph_database_sharedmem" where
  "edge_write_changes e db = (e, db)"

definition edge_write_changes_async ::
  "graph_edge_sharedmem \<Rightarrow> graph_database_sharedmem \<Rightarrow>
   graph_edge_sharedmem \<times> graph_database_sharedmem" where
  "edge_write_changes_async e db = (e, db)"

definition edge_refresh ::
  "graph_edge_sharedmem \<Rightarrow> graph_database_sharedmem \<Rightarrow>
   graph_edge_sharedmem \<times> graph_database_sharedmem" where
  "edge_refresh e db = (e, db)"

definition edge_write_and_refresh ::
  "graph_edge_sharedmem \<Rightarrow> graph_database_sharedmem \<Rightarrow>
   graph_edge_sharedmem \<times> graph_database_sharedmem" where
  "edge_write_and_refresh e db = (e, db)"

subsection \<open>Fine grained API\<close>

text \<open>
  \<^verbatim>\<open>get_vertex\<close>: NULL (here \<open>None\<close>) when the index gives no slot inside the
  vertex store; otherwise a handle. Building the handle reads \<^verbatim>\<open>vid2master[vid]\<close>
  and \<^verbatim>\<open>vid2mirrors[vid]\<close>, which insert defaults for a missing key.
\<close>

definition get_vertex ::
  "graph_database_sharedmem \<Rightarrow> graph_vid_t \<Rightarrow>
   graph_vertex_sharedmem option \<times> graph_database_sharedmem" where
  "get_vertex db v =
     (case get_index (vertex_index db) v of
        None \<Rightarrow> (None, db)
      | Some idx \<Rightarrow>
          if length (vertex_store db) \<le> idx then (None, db)
          else
            let (m, vm) = map_index (vid2master db) v 0;
                (ms, mm) = map_index (vid2mirrors db) v []
            in (Some \<lparr>vid = v, vdata = vertex_store db ! idx, master = m, mirrors = ms\<rparr>,
                db\<lparr>vid2master := vm, vid2mirrors := mm\<rparr>))"

text \<open>
  \<^verbatim>\<open>find_vertex\<close>, both overloads: \<^verbatim>\<open>ASSERT_TRUE(false); return false;\<close> under
  the comment "not implemented". The assertion macro is not part of the sources, so
  whether a failed assertion ends the call is the parameter \<open>assert_fatal\<close>: if it
  does, the call fails; if it does not, the call returns false and leaves
  \<^verbatim>\<open>out_vids\<close> as it was.
\<close>

definition find_vertex_int ::
  "bool \<Rightarrow> graph_database_sharedmem \<Rightarrow> nat \<Rightarrow> int \<Rightarrow> graph_vid_t list \<Rightarrow>
   error + (bool \<times> graph_vid_t list)" where
  "find_vertex_int assert_fatal db fieldpos val out_vids =
     (if assert_fatal then Inl AssertionFailed else Inr (False, out_vids))"

definition find_vertex_string ::
  "bool \<Rightarrow> graph_database_sharedmem \<Rightarrow> nat \<Rightarrow> string \<Rightarrow> graph_vid_t list \<Rightarrow>
   error + (bool \<times> graph_vid_t list)" where
  "find_vertex_string assert_fatal db fieldpos val out_vids =
     (if assert_fatal then Inl AssertionFailed else Inr (False, out_vids))"

subsection \<open>Modification API\<close>

text \<open>
  \<^verbatim>\<open>boost::hash\<close> is not part of the sources: the hash of a vid and the hash of a
  pair of vids are parameters \<open>vid_hash\<close> and \<open>edge_hash\<close> of the operations.
\<close>

definition add_vertex ::
  "(graph_vid_t \<Rightarrow> nat) \<Rightarrow> graph_database_sharedmem \<Rightarrow> graph_vid_t \<Rightarrow> graph_row option \<Rightarrow>
   error + (bool \<times> graph_database_sharedmem)" where
  "add_vertex vid_hash db v data =
     (if has_vertex (vertex_index db) v then Inr (False, db)
      else
        let row = (case data of None \<Rightarrow> new_graph_row (vertex_fields db) | Some r \<Rightarrow> r)
                    \<lparr>is_vertex := True\<rparr>
        in
          if num_shards db = 0 then Inl DivisionByZero
          else
            let m = vid_hash v mod num_shards db in
              if length (shards db) \<le> m then Inl OutOfBounds
              else
                let (ptr, sh) = shard_add_vertex (shards db ! m) v row;
                    db1 = db\<lparr>shards := (shards db)[m := sh]\<rparr>;
                    db2 = db1\<lparr>vid2master := (vid2master db1)(v \<mapsto> m)\<rparr>;
                    db3 = db2\<lparr>vertex_store := vertex_store db2 @ [(m, ptr)]\<rparr>
                in Inr (True,
                        db3\<lparr>vertex_index :=
                              index_add_vertex (vertex_index db3) v row
                                (length (vertex_store db3) - 1)\<rparr>))"

text \<open>
  The block "Add vertices to mirror shards" of \<^verbatim>\<open>add_edge\<close>, once for the source
  and once for the target: \<open>&&\<close> reads \<^verbatim>\<open>vid2mirrors\<close> only when the master differs.
\<close>

definition add_mirror ::
  "graph_database_sharedmem \<Rightarrow> graph_vid_t \<Rightarrow> graph_shard_id_t \<Rightarrow> graph_database_sharedmem" where
  "add_mirror db v shardid =
     (let (m, vm) = map_index (vid2master db) v 0;
          db1 = db\<lparr>vid2master := vm\<rparr>
      in
        if m \<noteq> shardid then
          let (ms, mm) = map_index (vid2mirrors db1) v []
          in if shardid \<notin> set ms then db1\<lparr>vid2mirrors := mm(v \<mapsto> ms @ [shardid])\<rparr>
             else db1\<lparr>vid2mirrors := mm\<rparr>
        else db1)"

definition add_edge ::
  "(graph_vid_t \<Rightarrow> nat) \<Rightarrow> (graph_vid_t \<times> graph_vid_t \<Rightarrow> nat) \<Rightarrow>
   graph_database_sharedmem \<Rightarrow> graph_vid_t \<Rightarrow> graph_vid_t \<Rightarrow> graph_row option \<Rightarrow>
   error + graph_database_sharedmem" where
  "add_edge vid_hash edge_hash db source target data =
     (if num_shards db = 0 then Inl DivisionByZero
      else
        let shardid = edge_hash (source, target) mod num_shards db;
            row = (case data of None \<Rightarrow> new_graph_row (edge_fields db) | Some r \<Rightarrow> r)
                    \<lparr>is_vertex := False\<rparr>
        in
          if length (shards db) \<le> shardid then Inl OutOfBounds
          else
            let (pos, sh) = shard_add_edge (shards db ! shardid) source target row;
                db1 = db\<lparr>shards := (shards db)[shardid := sh],
                         m_num_edges := m_num_edges db + 1\<rparr>
            in
              if length (edge_index db1) \<le> shardid then Inl OutOfBounds
              else
                let db2 = db1\<lparr>edge_index := (edge_index db1)
                               [shardid := index_add_edge (edge_index db1 ! shardid)
                                             source target pos]\<rparr>
                in
                  case (if \<not> has_vertex (vertex_index db2) source
                        then add_vertex vid_hash db2 source None else Inr (False, db2)) of
                    Inl e \<Rightarrow> Inl e
                  | Inr (_, db3) \<Rightarrow>
                      (case (if \<not> has_vertex (vertex_index db3) target
                             then add_vertex vid_hash db3 target None else Inr (False, db3)) of
                         Inl e \<Rightarrow> Inl e
                       | Inr (_, db4) \<Rightarrow>
                           Inr (add_mirror (add_mirror db4 source shardid) target shardid)))"

subsection \<open>Coarse grained API\<close>

text \<open>
  The two inner loops of \<^verbatim>\<open>get_shard_contents_adj_to\<close>: for each position of the
  index list, copy the edge and its row from shard \<open>adjacent_to\<close> into the new shard
  and record the position in \<^verbatim>\<open>edgeid\<close>.
\<close>

fun copy_edges ::
  "graph_shard_impl list \<Rightarrow> graph_shard_id_t \<Rightarrow> nat list \<Rightarrow> graph_shard_impl \<Rightarrow>
   error + graph_shard_impl" where
  "copy_edges shs adjacent_to [] ret = Inr ret"
| "copy_edges shs adjacent_to (p # ps) ret =
     (if adjacent_to < length shs \<and> p < length (edge (shs ! adjacent_to))
         \<and> p < length (edge_data (shs ! adjacent_to))
      then
        let e = edge (shs ! adjacent_to) ! p;
            data_copy = row_deepcopy (edge_data (shs ! adjacent_to) ! p);
            (pos, ret1) = shard_add_edge ret (fst e) (snd e) data_copy
        in copy_edges shs adjacent_to ps (ret1\<lparr>edgeid := edgeid ret1 @ [p]\<rparr>)
      else Inl OutOfBounds)"

text \<open>The outer loop over the vertex list of shard \<open>shard_id\<close>.\<close>

fun adj_loop ::
  "graph_database_sharedmem \<Rightarrow> graph_shard_id_t \<Rightarrow> graph_shard_id_t \<Rightarrow> graph_vid_t list \<Rightarrow>
   graph_shard_impl \<Rightarrow> error + (graph_shard_impl \<times> graph_database_sharedmem)" where
  "adj_loop db sid adjacent_to [] ret = Inr (ret, db)"
| "adj_loop db sid adjacent_to (v # vs) ret =
     (let (pass, db1) =
            (if sid = adjacent_to then (True, db)
             else let (ms, mm) = map_index (vid2mirrors db) v []
                  in (adjacent_to \<in> set ms, db\<lparr>vid2mirrors := mm\<rparr>))
      in
        if pass then
          if length (edge_index db1) \<le> adjacent_to then Inl OutOfBounds
          else
            let (index_in, index_out) =
                  get_edge_index (edge_index db1 ! adjacent_to) True True v
            in
              case copy_edges (shards db1) adjacent_to index_in ret of
                Inl e \<Rightarrow> Inl e
              | Inr ret1 \<Rightarrow>
                  (case copy_edges (shards db1) adjacent_to index_out ret1 of
                     Inl e \<Rightarrow> Inl e
                   | Inr ret2 \<Rightarrow> adj_loop db1 sid adjacent_to vs ret2)
        else adj_loop db1 sid adjacent_to vs ret)"

definition get_shard_contents_adj_to ::
  "graph_database_sharedmem \<Rightarrow> graph_shard_id_t \<Rightarrow> graph_shard_id_t \<Rightarrow>
   error + (graph_shard_impl \<times> graph_database_sharedmem)" where
  "get_shard_contents_adj_to db sid adjacent_to =
     (if length (shards db) \<le> sid then Inl OutOfBounds
      else adj_loop db sid adjacent_to (vertex (shards db ! sid))
             (new_graph_shard\<lparr>shard_id := adjacent_to\<rparr>))"

text \<open>
  \<^verbatim>\<open>commit_shard\<close>, for a shard the caller owns (a copy or a derived shard). The inner
  loop over the fields of one local row: a modified field gets its post-commit state and
  is then copied over field \<open>j\<close> of the origin row.
\<close>

fun commit_fields ::
  "nat \<Rightarrow> graph_value list \<Rightarrow> graph_value list \<Rightarrow>
   error + (graph_value list \<times> graph_value list)" where
  "commit_fields j [] origin = Inr ([], origin)"
| "commit_fields j (val # vals) origin =
     (if get_modified val then
        if j < length origin then
          (case commit_fields (Suc j) vals
                  (origin[j := value_deepcopy (post_commit_state val)]) of
             Inl e \<Rightarrow> Inl e
           | Inr (ls, origin1) \<Rightarrow> Inr (post_commit_state val # ls, origin1))
        else Inl OutOfBounds
      else
        (case commit_fields (Suc j) vals origin of
           Inl e \<Rightarrow> Inl e
         | Inr (ls, origin1) \<Rightarrow> Inr (val # ls, origin1)))"

text \<open>
  One round of the edge loop: the origin row is \<^verbatim>\<open>shards[id].edge_data(pos)\<close>; the
  source asserts that it exists.
\<close>

definition commit_edge_row ::
  "graph_database_sharedmem \<Rightarrow> graph_shard_id_t \<Rightarrow> nat \<Rightarrow> graph_row \<Rightarrow>
   error + (graph_row \<times> graph_database_sharedmem)" where
  "commit_edge_row db ident pos local =
     (if length (shards db) \<le> ident then Inl OutOfBounds
      else if length (edge_data (shards db ! ident)) \<le> pos then Inl AssertionFailed
      else
        let origin = edge_data (shards db ! ident) ! pos in
          case commit_fields 0 (row_values local) (row_values origin) of
            Inl e \<Rightarrow> Inl e
          | Inr (ls, ovals) \<Rightarrow>
              Inr (local\<lparr>row_values := ls\<rparr>,
                   db\<lparr>shards := (shards db)[ident := (shards db ! ident)
                         \<lparr>edge_data := (edge_data (shards db ! ident))
                                         [pos := origin\<lparr>row_values := ovals\<rparr>]\<rparr>]\<rparr>))"

fun commit_edges ::
  "graph_database_sharedmem \<Rightarrow> graph_shard_impl \<Rightarrow> nat \<Rightarrow> graph_row list \<Rightarrow>
   error + (graph_row list \<times> graph_database_sharedmem)" where
  "commit_edges db sh i [] = Inr ([], db)"
| "commit_edges db sh i (local # rest) =
     (let derivedshard = (0 < length (edgeid sh)) in
        if derivedshard \<and> length (edgeid sh) \<le> i then Inl OutOfBounds
        else
          case commit_edge_row db (shard_id sh) (if derivedshard then edgeid sh ! i else i) local of
            Inl e \<Rightarrow> Inl e
          | Inr (local1, db1) \<Rightarrow>
              (case commit_edges db1 sh (Suc i) rest of
                 Inl e \<Rightarrow> Inl e
               | Inr (rest1, db2) \<Rightarrow> Inr (local1 # rest1, db2)))"

definition commit_shard ::
  "graph_database_sharedmem \<Rightarrow> graph_shard_impl \<Rightarrow>
   error + (graph_database_sharedmem \<times> graph_shard_impl)" where
  "commit_shard db sh =
     (let nv = shard_num_vertices sh; ne = shard_num_edges sh in
        if length (vertex_data sh) < nv \<or> length (edge_data sh) < ne then Inl OutOfBounds
        else
          let vrows = map row_write_changes (take nv (vertex_data sh)) @ drop nv (vertex_data sh)
          in
            case commit_edges db sh 0 (take ne (edge_data sh)) of
              Inl e \<Rightarrow> Inl e
            | Inr (erows, db1) \<Rightarrow>
                Inr (db1, sh\<lparr>vertex_data := vrows,
                             edge_data := erows @ drop ne (edge_data sh)\<rparr>))"

subsection \<open>Sequences of operations\<close>

text \<open>
  The calls that can change the database, as data, and the state after a sequence of
  them. A sequence stops at the first call whose behaviour is undefined.
\<close>

datatype db_op =
    AddVertex graph_vid_t "graph_row option"
  | AddEdge graph_vid_t graph_vid_t "graph_row option"
  | GetMaster graph_vid_t
  | GetVertex graph_vid_t
  | WriteChanges graph_vid_t
  | GetShardContentsAdjTo graph_shard_id_t graph_shard_id_t
  | CommitShard graph_shard_impl

fun step ::
  "(graph_vid_t \<Rightarrow> nat) \<Rightarrow> (graph_vid_t \<times> graph_vid_t \<Rightarrow> nat) \<Rightarrow>
   graph_database_sharedmem \<Rightarrow> db_op \<Rightarrow> error + graph_database_sharedmem" where
  "step vid_hash edge_hash db (AddVertex v data) =
     (case add_vertex vid_hash db v data of Inl e \<Rightarrow> Inl e | Inr (_, db1) \<Rightarrow> Inr db1)"
| "step vid_hash edge_hash db (AddEdge s t data) = add_edge vid_hash edge_hash db s t data"
| "step vid_hash edge_hash db (GetMaster v) = Inr (snd (get_master db v))"
| "step vid_hash edge_hash db (GetVertex v) = Inr (snd (get_vertex db v))"
| "step vid_hash edge_hash db (WriteChanges v) =
     (case get_vertex db v of
        (None, db1) \<Rightarrow> Inr db1
      | (Some h, db1) \<Rightarrow> write_changes h db1)"
| "step vid_hash edge_hash db (GetShardContentsAdjTo a b) =
     (case get_shard_contents_adj_to db a b of Inl e \<Rightarrow> Inl e | Inr (_, db1) \<Rightarrow> Inr db1)"
| "step vid_hash edge_hash db (CommitShard sh) =
     (case commit_shard db sh of Inl e \<Rightarrow> Inl e | Inr (db1, _) \<Rightarrow> Inr db1)"

fun run ::
  "(graph_vid_t \<Rightarrow> nat) \<Rightarrow> (graph_vid_t \<times> graph_vid_t \<Rightarrow> nat) \<Rightarrow>
   graph_database_sharedmem \<Rightarrow> db_op list \<Rightarrow> error + graph_database_sharedmem" where
  "run vid_hash edge_hash db [] = Inr db"
| "run vid_hash edge_hash db (x # xs) =
     (case step vid_hash edge_hash db x of
        Inl e \<Rightarrow> Inl e
      | Inr db1 \<Rightarrow> run vid_hash edge_hash db1 xs)"

text \<open>The vids a sequence of calls asks to add: by \<^verbatim>\<open>add_vertex\<close> or as an endpoint.\<close>

fun op_vids :: "db_op \<Rightarrow> graph_vid_t list" where
  "op_vids (AddVertex v data) = [v]"
| "op_vids (AddEdge s t data) = [s, t]"
| "op_vids _ = []"

definition added_vids :: "db_op list \<Rightarrow> graph_vid_t set" where
  "added_vids xs = set (concat (map op_vids xs))"

text \<open>What the maps say about a vid, read without changing them.\<close>

definition master_of :: "graph_database_sharedmem \<Rightarrow> graph_vid_t \<Rightarrow> graph_shard_id_t" where
  "master_of db v = fst (get_master db v)"

definition mirrors_of :: "graph_database_sharedmem \<Rightarrow> graph_vid_t \<Rightarrow> graph_shard_id_t list" where
  "mirrors_of db v = fst (map_index (vid2mirrors db) v [])"

subsection \<open>Auxiliary notions for the proofs\<close>

text \<open>
  The two halves of the insertions as database updates, the consistency conditions that
  hold in every state the operations can reach, and the ways in which one state can
  differ from another.
\<close>

text \<open>
  What \<^verbatim>\<open>add_vertex\<close> does to the database when it inserts, and what the first half
  of \<^verbatim>\<open>add_edge\<close> (store the row, count it, index it) does.
\<close>

definition insert_vertex ::
  "(graph_vid_t \<Rightarrow> nat) \<Rightarrow> graph_database_sharedmem \<Rightarrow> graph_vid_t \<Rightarrow> graph_row option \<Rightarrow>
   graph_database_sharedmem" where
  "insert_vertex vid_hash db v data =
     db\<lparr>shards := (shards db)[vid_hash v mod num_shards db :=
            (shards db ! (vid_hash v mod num_shards db))
              \<lparr>vertex := vertex (shards db ! (vid_hash v mod num_shards db)) @ [v],
               vertex_data := vertex_data (shards db ! (vid_hash v mod num_shards db)) @
                 [row_deepcopy
                    ((case data of None \<Rightarrow> new_graph_row (vertex_fields db) | Some r \<Rightarrow> r)
                       \<lparr>is_vertex := True\<rparr>)]\<rparr>],
         vid2master := (vid2master db)(v \<mapsto> vid_hash v mod num_shards db),
         vertex_store := vertex_store db @
            [(vid_hash v mod num_shards db,
              length (vertex (shards db ! (vid_hash v mod num_shards db))))],
         vertex_index := (vertex_index db)(v \<mapsto> length (vertex_store db))\<rparr>"

definition insert_edge ::
  "(graph_vid_t \<times> graph_vid_t \<Rightarrow> nat) \<Rightarrow> graph_database_sharedmem \<Rightarrow> graph_vid_t \<Rightarrow>
   graph_vid_t \<Rightarrow> graph_row option \<Rightarrow> graph_database_sharedmem" where
  "insert_edge edge_hash db s t data =
     db\<lparr>shards := (shards db)[edge_hash (s, t) mod num_shards db :=
            (shards db ! (edge_hash (s, t) mod num_shards db))
              \<lparr>edge := edge (shards db ! (edge_hash (s, t) mod num_shards db)) @ [(s, t)],
               edge_data := edge_data (shards db ! (edge_hash (s, t) mod num_shards db)) @
                 [row_deepcopy
                    ((case data of None \<Rightarrow> new_graph_row (edge_fields db) | Some r \<Rightarrow> r)
                       \<lparr>is_vertex := False\<rparr>)]\<rparr>],
         m_num_edges := m_num_edges db + 1,
         edge_index := (edge_index db)[edge_hash (s, t) mod num_shards db :=
            index_add_edge (edge_index db ! (edge_hash (s, t) mod num_shards db)) s t
              (length (edge (shards db ! (edge_hash (s, t) mod num_shards db))))]\<rparr>"

text \<open>A later state keeps every vertex with its master and every mirror.\<close>

definition grows :: "graph_database_sharedmem \<Rightarrow> graph_database_sharedmem \<Rightarrow> bool" where
  "grows db db1 \<longleftrightarrow>
     (\<forall>v. (has_vertex (vertex_index db) v \<longrightarrow>
             has_vertex (vertex_index db1) v \<and> master_of db1 v = master_of db v)
          \<and> set (mirrors_of db v) \<subseteq> set (mirrors_of db1 v))"

text \<open>
  The conditions that hold in every reachable state: the shard array and the edge
  indices have \<^verbatim>\<open>num_shards\<close> entries, rows and entries go together, and every
  indexed position is a position of the shard; an indexed vid has its slot in the
  vertex store, which points to its entry in the master shard \<open>vid_hash v mod num_shards\<close>;
  a mirror set has no duplicates, belongs to a vertex and does not hold the master.
\<close>

definition shards_ok :: "graph_database_sharedmem \<Rightarrow> bool" where
  "shards_ok db \<longleftrightarrow>
     0 < num_shards db \<and> length (shards db) = num_shards db
     \<and> length (edge_index db) = num_shards db
     \<and> (\<forall>k < num_shards db.
           length (vertex_data (shards db ! k)) = length (vertex (shards db ! k))
           \<and> length (edge_data (shards db ! k)) = length (edge (shards db ! k))
           \<and> (\<forall>v. \<forall>p \<in> set (in_edges (edge_index db ! k) v) \<union> set (out_edges (edge_index db ! k) v).
                 p < length (edge (shards db ! k))))"

definition vertices_ok :: "(graph_vid_t \<Rightarrow> nat) \<Rightarrow> graph_database_sharedmem \<Rightarrow> bool" where
  "vertices_ok vid_hash db \<longleftrightarrow>
     (\<forall>v i. vertex_index db v = Some i \<longrightarrow>
        i < length (vertex_store db)
        \<and> vid2master db v = Some (vid_hash v mod num_shards db)
        \<and> fst (vertex_store db ! i) = vid_hash v mod num_shards db
        \<and> snd (vertex_store db ! i) < length (vertex (shards db ! (vid_hash v mod num_shards db)))
        \<and> vertex (shards db ! (vid_hash v mod num_shards db)) ! snd (vertex_store db ! i) = v)"

definition mirrors_ok :: "graph_database_sharedmem \<Rightarrow> bool" where
  "mirrors_ok db \<longleftrightarrow>
     (\<forall>v. distinct (mirrors_of db v)
          \<and> (mirrors_of db v \<noteq> [] \<longrightarrow> has_vertex (vertex_index db) v)
          \<and> (\<forall>k \<in> set (mirrors_of db v). k \<noteq> master_of db v \<and> k < num_shards db))"

definition db_inv :: "(graph_vid_t \<Rightarrow> nat) \<Rightarrow> graph_database_sharedmem \<Rightarrow> bool" where
  "db_inv vid_hash db \<longleftrightarrow> shards_ok db \<and> vertices_ok vid_hash db \<and> mirrors_ok db"

text \<open>
  \<open>same_maps\<close>: the second state differs from the first at most by entries that
  \<^verbatim>\<open>operator[]\<close> inserted with a default value. \<open>same_layout\<close>: it differs at most
  in the contents of rows.
\<close>

definition same_maps :: "graph_database_sharedmem \<Rightarrow> graph_database_sharedmem \<Rightarrow> bool" where
  "same_maps db db1 \<longleftrightarrow>
     shards db1 = shards db \<and> vertex_store db1 = vertex_store db
     \<and> vertex_index db1 = vertex_index db \<and> edge_index db1 = edge_index db
     \<and> m_num_shards db1 = m_num_shards db \<and> m_num_edges db1 = m_num_edges db
     \<and> vertex_fields db1 = vertex_fields db \<and> edge_fields db1 = edge_fields db
     \<and> (\<forall>v. master_of db1 v = master_of db v \<and> mirrors_of db1 v = mirrors_of db v
            \<and> (vid2master db v \<noteq> None \<longrightarrow> vid2master db1 v = vid2master db v))"

definition same_layout :: "graph_database_sharedmem \<Rightarrow> graph_database_sharedmem \<Rightarrow> bool" where
  "same_layout db db1 \<longleftrightarrow>
     vertex_store db1 = vertex_store db
     \<and> vertex_index db1 = vertex_index db \<and> edge_index db1 = edge_index db
     \<and> vid2master db1 = vid2master db \<and> vid2mirrors db1 = vid2mirrors db
     \<and> m_num_shards db1 = m_num_shards db \<and> m_num_edges db1 = m_num_edges db
     \<and> vertex_fields db1 = vertex_fields db \<and> edge_fields db1 = edge_fields db
     \<and> length (shards db1) = length (shards db)
     \<and> (\<forall>k < length (shards db).
           shard_id (shards db1 ! k) = shard_id (shards db ! k)
           \<and> vertex (shards db1 ! k) = vertex (shards db ! k)
           \<and> edge (shards db1 ! k) = edge (shards db ! k)
           \<and> edgeid (shards db1 ! k) = edgeid (shards db ! k)
           \<and> length (vertex_data (shards db1 ! k)) = length (vertex_data (shards db ! k))
           \<and> length (edge_data (shards db1 ! k)) = length (edge_data (shards db ! k)))"

text \<open>
  For \<^verbatim>\<open>get_shard_contents_adj_to\<close>: the shard after copying the positions \<open>ps\<close>,
  the positions that can be read, the filter on the vertices, the positions the edge
  index has for a vertex, and the positions copied for a vertex list.
\<close>

definition append_copies ::
  "graph_shard_impl list \<Rightarrow> graph_shard_id_t \<Rightarrow> nat list \<Rightarrow> graph_shard_impl \<Rightarrow> graph_shard_impl" where
  "append_copies shs adjacent_to ps ret =
     ret\<lparr>edge := edge ret @ map (\<lambda>p. edge (shs ! adjacent_to) ! p) ps,
         edge_data := edge_data ret @ map (\<lambda>p. row_deepcopy (edge_data (shs ! adjacent_to) ! p)) ps,
         edgeid := edgeid ret @ ps\<rparr>"

definition positions_ok ::
  "graph_shard_impl list \<Rightarrow> graph_shard_id_t \<Rightarrow> nat list \<Rightarrow> bool" where
  "positions_ok shs adjacent_to ps \<longleftrightarrow>
     (\<forall>p \<in> set ps. adjacent_to < length shs \<and> p < length (edge (shs ! adjacent_to))
        \<and> p < length (edge_data (shs ! adjacent_to)))"

definition passes ::
  "graph_database_sharedmem \<Rightarrow> graph_shard_id_t \<Rightarrow> graph_shard_id_t \<Rightarrow> graph_vid_t \<Rightarrow> bool" where
  "passes db sid adjacent_to v \<longleftrightarrow> sid = adjacent_to \<or> adjacent_to \<in> set (mirrors_of db v)"

definition adjacency ::
  "graph_database_sharedmem \<Rightarrow> graph_shard_id_t \<Rightarrow> graph_vid_t \<Rightarrow> nat list" where
  "adjacency db adjacent_to v =
     in_edges (edge_index db ! adjacent_to) v @ out_edges (edge_index db ! adjacent_to) v"

definition adj_positions ::
  "graph_database_sharedmem \<Rightarrow> graph_shard_id_t \<Rightarrow> graph_shard_id_t \<Rightarrow> graph_vid_t list \<Rightarrow> nat list" where
  "adj_positions db sid adjacent_to vs =
     concat (map (adjacency db adjacent_to) (filter (passes db sid adjacent_to) vs))"

text \<open>
  For \<^verbatim>\<open>commit_shard\<close>: a row without a modified field, the origin position of local
  edge \<open>i\<close>, the condition under which round \<open>i\<close> of the edge loop finds its origin
  row, and the database with one field of one edge row replaced.
\<close>

definition unmodified :: "graph_row \<Rightarrow> bool" where
  "unmodified r \<longleftrightarrow> (\<forall>val \<in> set (row_values r). \<not> get_modified val)"

definition origin_pos :: "graph_shard_impl \<Rightarrow> nat \<Rightarrow> nat" where
  "origin_pos sh i = (if 0 < length (edgeid sh) then edgeid sh ! i else i)"

definition pos_valid :: "graph_database_sharedmem \<Rightarrow> graph_shard_impl \<Rightarrow> nat \<Rightarrow> bool" where
  "pos_valid db sh i \<longleftrightarrow>
     (0 < length (edgeid sh) \<longrightarrow> i < length (edgeid sh))
     \<and> shard_id sh < length (shards db)
     \<and> origin_pos sh i < length (edge_data (shards db ! shard_id sh))"

definition store_edge_field ::
  "graph_database_sharedmem \<Rightarrow> graph_shard_id_t \<Rightarrow> nat \<Rightarrow> nat \<Rightarrow> graph_value \<Rightarrow>
   graph_database_sharedmem" where
  "store_edge_field db ident pos j val =
     db\<lparr>shards := (shards db)[ident := (shards db ! ident)
           \<lparr>edge_data := (edge_data (shards db ! ident))
              [pos := (edge_data (shards db ! ident) ! pos)
                 \<lparr>row_values := (row_values (edge_data (shards db ! ident) ! pos))[j := val]\<rparr>]\<rparr>]\<rparr>"

subsection \<open>Concrete inputs\<close>

text \<open>Two hash functions, a row with a modified field and small databases to run on.\<close>

definition hash_id :: "graph_vid_t \<Rightarrow> nat" where
  "hash_id v = v"

definition hash_sum :: "graph_vid_t \<times> graph_vid_t \<Rightarrow> nat" where
  "hash_sum p = fst p + snd p"

definition dirty_row :: graph_row where
  "dirty_row = \<lparr>row_values =
      [\<lparr>val_data = IntDatum 3, val_old = NullDatum, val_modified = True,
        val_delta_commit = True\<rparr>,
       \<lparr>val_data = StringDatum ''a'', val_old = StringDatum ''a'', val_modified = False,
        val_delta_commit = False\<rparr>],
     is_vertex = False\<rparr>"

definition db_one_vertex :: graph_database_sharedmem where
  "db_one_vertex = projr (run hash_id hash_sum (new_database [''a'', ''b''] [] 2)
      [AddVertex 7 (Some dirty_row)])"

definition db_edge12 :: graph_database_sharedmem where
  "db_edge12 = projr (run hash_id hash_sum (new_database [''name''] [''weight''] 4)
      [AddEdge 1 2 None])"

definition db_triangle :: graph_database_sharedmem where
  "db_triangle = projr (run hash_id hash_sum db_edge12 [AddEdge 2 3 None, AddEdge 3 1 None])"

definition db_loop :: graph_database_sharedmem where
  "db_loop = projr (run hash_id hash_sum db_triangle [AddEdge 1 4 None, AddEdge 4 4 None])"

definition edited_row :: graph_row where
  "edited_row = \<lparr>row_values =
      [\<lparr>val_data = IntDatum 5, val_old = NullDatum, val_modified = True,
        val_delta_commit = False\<rparr>],
     is_vertex = False\<rparr>"

section \<open>Evaluation and basic facts\<close>

lemmas eval_defs =
  new_database_def new_graph_shard_def new_edge_index_def new_graph_row_def null_value_def
  add_vertex_def add_edge_def add_mirror_def map_index_def get_master_def get_vertex_def
  has_vertex_def get_index_def index_add_vertex_def index_add_edge_def get_edge_index_def
  shard_add_vertex_def shard_add_edge_def shard_num_vertices_def shard_num_edges_def
  num_vertices_def num_edges_def num_shards_def row_deepcopy_def value_deepcopy_def
  vertex_row_def store_vertex_row_def edge_row_def write_changes_def row_write_changes_def
  commit_value_def get_modified_def post_commit_state_def get_shard_contents_adj_to_def
  commit_shard_def commit_edge_row_def master_of_def mirrors_of_def
  hash_id_def hash_sum_def dirty_row_def db_one_vertex_def
  Let_def

lemma add_vertex_known:
  "has_vertex (vertex_index db) v \<Longrightarrow> add_vertex vid_hash db v data = Inr (False, db)"
  by (simp add: add_vertex_def)

lemma add_vertex_fresh:
  assumes "\<not> has_vertex (vertex_index db) v" and "0 < num_shards db"
    and "num_shards db \<le> length (shards db)"
  shows "add_vertex vid_hash db v data =
    Inr (True,
      db\<lparr>shards := (shards db)[vid_hash v mod num_shards db :=
            (shards db ! (vid_hash v mod num_shards db))
              \<lparr>vertex := vertex (shards db ! (vid_hash v mod num_shards db)) @ [v],
               vertex_data := vertex_data (shards db ! (vid_hash v mod num_shards db)) @
                 [row_deepcopy
                    ((case data of None \<Rightarrow> new_graph_row (vertex_fields db) | Some r \<Rightarrow> r)
                       \<lparr>is_vertex := True\<rparr>)]\<rparr>],
         vid2master := (vid2master db)(v \<mapsto> vid_hash v mod num_shards db),
         vertex_store := vertex_store db @
            [(vid_hash v mod num_shards db,
              length (vertex (shards db ! (vid_hash v mod num_shards db))))],
         vertex_index := (vertex_index db)(v \<mapsto> length (vertex_store db))\<rparr>)"
proof -
  have "vid_hash v mod num_shards db < length (shards db)"
    using assms by (meson less_le_trans mod_less_divisor)
  then have m: "\<not> length (shards db) \<le> vid_hash v mod num_shards db" by simp
  show ?thesis
    using assms(1,2) m
    by (simp add: add_vertex_def Let_def shard_add_vertex_def shard_num_vertices_def
        index_add_vertex_def)
qed

section \<open>Insertions, frames and invariants\<close>

lemma add_vertex_eq:
  "add_vertex vid_hash db v data =
     (if has_vertex (vertex_index db) v then Inr (False, db)
      else if num_shards db = 0 then Inl DivisionByZero
      else if length (shards db) \<le> vid_hash v mod num_shards db then Inl OutOfBounds
      else Inr (True, insert_vertex vid_hash db v data))"
  by (simp add: add_vertex_def Let_def shard_add_vertex_def shard_num_vertices_def
        index_add_vertex_def insert_vertex_def)

lemma add_vertex_again:
  "(if \<not> has_vertex (vertex_index db) v then add_vertex vid_hash db v data else Inr (False, db))
     = add_vertex vid_hash db v data"
  by (simp add: add_vertex_eq)

lemma add_edge_eq:
  "add_edge vid_hash edge_hash db s t data =
     (if num_shards db = 0 then Inl DivisionByZero
      else if length (shards db) \<le> edge_hash (s, t) mod num_shards db then Inl OutOfBounds
      else if length (edge_index db) \<le> edge_hash (s, t) mod num_shards db then Inl OutOfBounds
      else
        case add_vertex vid_hash (insert_edge edge_hash db s t data) s None of
          Inl e \<Rightarrow> Inl e
        | Inr (b3, db3) \<Rightarrow>
            (case add_vertex vid_hash db3 t None of
               Inl e \<Rightarrow> Inl e
             | Inr (b4, db4) \<Rightarrow>
                 Inr (add_mirror (add_mirror db4 s (edge_hash (s, t) mod num_shards db)) t
                        (edge_hash (s, t) mod num_shards db))))"
  unfolding add_edge_def Let_def add_vertex_again shard_add_edge_def shard_num_edges_def
    insert_edge_def
  by (simp cong: sum.case_cong)

lemma master_of_eq: "master_of db v = (case vid2master db v of None \<Rightarrow> 0 | Some m \<Rightarrow> m)"
  by (simp add: master_of_def get_master_def map_index_def split: option.splits)

lemma mirrors_of_eq: "mirrors_of db v = (case vid2mirrors db v of None \<Rightarrow> [] | Some ms \<Rightarrow> ms)"
  by (simp add: mirrors_of_def map_index_def split: option.splits)

lemma insert_vertex_fields [simp]:
  "vertex_index (insert_vertex vid_hash db v data) = (vertex_index db)(v \<mapsto> length (vertex_store db))"
  "vid2master (insert_vertex vid_hash db v data) = (vid2master db)(v \<mapsto> vid_hash v mod num_shards db)"
  "vid2mirrors (insert_vertex vid_hash db v data) = vid2mirrors db"
  "edge_index (insert_vertex vid_hash db v data) = edge_index db"
  "m_num_edges (insert_vertex vid_hash db v data) = m_num_edges db"
  "m_num_shards (insert_vertex vid_hash db v data) = m_num_shards db"
  "vertex_fields (insert_vertex vid_hash db v data) = vertex_fields db"
  "edge_fields (insert_vertex vid_hash db v data) = edge_fields db"
  "vertex_store (insert_vertex vid_hash db v data) = vertex_store db @
     [(vid_hash v mod num_shards db, length (vertex (shards db ! (vid_hash v mod num_shards db))))]"
  "length (shards (insert_vertex vid_hash db v data)) = length (shards db)"
  by (simp_all add: insert_vertex_def)

lemma insert_edge_fields [simp]:
  "vertex_index (insert_edge edge_hash db s t data) = vertex_index db"
  "vid2master (insert_edge edge_hash db s t data) = vid2master db"
  "vid2mirrors (insert_edge edge_hash db s t data) = vid2mirrors db"
  "vertex_store (insert_edge edge_hash db s t data) = vertex_store db"
  "m_num_edges (insert_edge edge_hash db s t data) = m_num_edges db + 1"
  "m_num_shards (insert_edge edge_hash db s t data) = m_num_shards db"
  "vertex_fields (insert_edge edge_hash db s t data) = vertex_fields db"
  "edge_fields (insert_edge edge_hash db s t data) = edge_fields db"
  "length (shards (insert_edge edge_hash db s t data)) = length (shards db)"
  "length (edge_index (insert_edge edge_hash db s t data)) = length (edge_index db)"
  by (simp_all add: insert_edge_def)

lemma add_mirror_fields [simp]:
  "vertex_index (add_mirror db v k) = vertex_index db"
  "shards (add_mirror db v k) = shards db"
  "edge_index (add_mirror db v k) = edge_index db"
  "vertex_store (add_mirror db v k) = vertex_store db"
  "m_num_edges (add_mirror db v k) = m_num_edges db"
  "m_num_shards (add_mirror db v k) = m_num_shards db"
  "vertex_fields (add_mirror db v k) = vertex_fields db"
  "edge_fields (add_mirror db v k) = edge_fields db"
  by (simp_all add: add_mirror_def map_index_def Let_def split: option.splits prod.splits)

lemma add_mirror_master [simp]: "master_of (add_mirror db v k) w = master_of db w"
  by (simp add: add_mirror_def map_index_def Let_def master_of_eq split: option.splits)

lemma add_mirror_vid2master:
  "vid2master (add_mirror db v k) w =
     (if w = v \<and> vid2master db v = None then Some 0 else vid2master db w)"
  by (simp add: add_mirror_def map_index_def Let_def split: option.splits)

lemma add_mirror_mirrors:
  "mirrors_of (add_mirror db v k) w =
     (if w = v \<and> master_of db v \<noteq> k \<and> k \<notin> set (mirrors_of db v)
      then mirrors_of db v @ [k] else mirrors_of db w)"
  by (simp add: add_mirror_def map_index_def Let_def master_of_eq mirrors_of_eq
      split: option.splits)

lemma grows_refl: "grows db db"
  by (simp add: grows_def)

lemma grows_trans: "grows a b \<Longrightarrow> grows b c \<Longrightarrow> grows a c"
  unfolding grows_def by (intro allI conjI impI) (auto dest: spec)

lemma grows_add_mirror: "grows db (add_mirror db v k)"
  by (auto simp: grows_def add_mirror_mirrors)

lemma grows_insert_edge: "grows db (insert_edge edge_hash db s t data)"
  by (simp add: grows_def master_of_eq mirrors_of_eq)

lemma grows_insert_vertex:
  "\<not> has_vertex (vertex_index db) v \<Longrightarrow> grows db (insert_vertex vid_hash db v data)"
  by (auto simp: grows_def master_of_eq mirrors_of_eq has_vertex_def)

lemma grows_add_vertex: "add_vertex vid_hash db v data = Inr (b, db1) \<Longrightarrow> grows db db1"
  by (auto simp: add_vertex_eq grows_refl grows_insert_vertex split: if_splits)

lemma add_edge_InrD:
  assumes "add_edge vid_hash edge_hash db s t data = Inr db1"
  obtains b3 db3 b4 db4 where
    "0 < num_shards db"
    "edge_hash (s, t) mod num_shards db < length (shards db)"
    "edge_hash (s, t) mod num_shards db < length (edge_index db)"
    "add_vertex vid_hash (insert_edge edge_hash db s t data) s None = Inr (b3, db3)"
    "add_vertex vid_hash db3 t None = Inr (b4, db4)"
    "db1 = add_mirror (add_mirror db4 s (edge_hash (s, t) mod num_shards db)) t
             (edge_hash (s, t) mod num_shards db)"
  using assms unfolding add_edge_eq
  by (auto split: if_splits sum.splits)

lemma grows_add_edge:
  assumes "add_edge vid_hash edge_hash db s t data = Inr db1"
  shows "grows db db1"
proof -
  from assms obtain b3 db3 b4 db4 where
    a3: "add_vertex vid_hash (insert_edge edge_hash db s t data) s None = Inr (b3, db3)"
    and a4: "add_vertex vid_hash db3 t None = Inr (b4, db4)"
    and d: "db1 = add_mirror (add_mirror db4 s (edge_hash (s, t) mod num_shards db)) t
             (edge_hash (s, t) mod num_shards db)"
    by (rule add_edge_InrD)
  have "grows db db4"
    using grows_insert_edge grows_add_vertex[OF a3] grows_add_vertex[OF a4] grows_trans by blast
  then show ?thesis
    unfolding d using grows_add_mirror grows_trans by blast
qed

lemma nth_list_update_full:
  "xs[i := x] ! k = (if k = i \<and> i < length xs then x else xs ! k)"
  by (cases "i < length xs") (simp_all add: nth_list_update list_update_beyond)

lemma shards_insert_vertex:
  "shards (insert_vertex vid_hash db v data) ! k =
     (if k = vid_hash v mod num_shards db \<and> k < length (shards db)
      then (shards db ! k)\<lparr>vertex := vertex (shards db ! k) @ [v],
             vertex_data := vertex_data (shards db ! k) @
               [row_deepcopy
                  ((case data of None \<Rightarrow> new_graph_row (vertex_fields db) | Some r \<Rightarrow> r)
                     \<lparr>is_vertex := True\<rparr>)]\<rparr>
      else shards db ! k)"
  by (simp add: insert_vertex_def nth_list_update_full)

lemma shards_insert_edge:
  "shards (insert_edge edge_hash db s t data) ! k =
     (if k = edge_hash (s, t) mod num_shards db \<and> k < length (shards db)
      then (shards db ! k)\<lparr>edge := edge (shards db ! k) @ [(s, t)],
             edge_data := edge_data (shards db ! k) @
               [row_deepcopy
                  ((case data of None \<Rightarrow> new_graph_row (edge_fields db) | Some r \<Rightarrow> r)
                     \<lparr>is_vertex := False\<rparr>)]\<rparr>
      else shards db ! k)"
  by (simp add: insert_edge_def nth_list_update_full)

lemma insert_vertex_shard_fields [simp]:
  "shard_id (shards (insert_vertex vid_hash db v data) ! k) = shard_id (shards db ! k)"
  "edge (shards (insert_vertex vid_hash db v data) ! k) = edge (shards db ! k)"
  "edge_data (shards (insert_vertex vid_hash db v data) ! k) = edge_data (shards db ! k)"
  "edgeid (shards (insert_vertex vid_hash db v data) ! k) = edgeid (shards db ! k)"
  "vertex (shards (insert_vertex vid_hash db v data) ! k) =
     (if k = vid_hash v mod num_shards db \<and> k < length (shards db)
      then vertex (shards db ! k) @ [v] else vertex (shards db ! k))"
  "length (vertex_data (shards (insert_vertex vid_hash db v data) ! k)) =
     (if k = vid_hash v mod num_shards db \<and> k < length (shards db)
      then Suc (length (vertex_data (shards db ! k))) else length (vertex_data (shards db ! k)))"
  by (simp_all add: shards_insert_vertex)

lemma insert_edge_shard_fields [simp]:
  "shard_id (shards (insert_edge edge_hash db s t data) ! k) = shard_id (shards db ! k)"
  "vertex (shards (insert_edge edge_hash db s t data) ! k) = vertex (shards db ! k)"
  "vertex_data (shards (insert_edge edge_hash db s t data) ! k) = vertex_data (shards db ! k)"
  "edgeid (shards (insert_edge edge_hash db s t data) ! k) = edgeid (shards db ! k)"
  "edge (shards (insert_edge edge_hash db s t data) ! k) =
     (if k = edge_hash (s, t) mod num_shards db \<and> k < length (shards db)
      then edge (shards db ! k) @ [(s, t)] else edge (shards db ! k))"
  "length (edge_data (shards (insert_edge edge_hash db s t data) ! k)) =
     (if k = edge_hash (s, t) mod num_shards db \<and> k < length (shards db)
      then Suc (length (edge_data (shards db ! k))) else length (edge_data (shards db ! k)))"
  by (simp_all add: shards_insert_edge)

lemma edge_index_insert_edge [simp]:
  "edge_index (insert_edge edge_hash db s t data) ! k =
     (if k = edge_hash (s, t) mod num_shards db \<and> k < length (edge_index db)
      then index_add_edge (edge_index db ! k) s t (length (edge (shards db ! k)))
      else edge_index db ! k)"
  by (simp add: insert_edge_def nth_list_update_full)

lemma index_add_edge_in:
  "set (in_edges (index_add_edge ei s t p) v) = set (in_edges ei v) \<union> (if v = t then {p} else {})"
  by (simp add: index_add_edge_def Let_def)

lemma index_add_edge_out:
  "set (out_edges (index_add_edge ei s t p) v) = set (out_edges ei v) \<union> (if v = s then {p} else {})"
  by (simp add: index_add_edge_def Let_def)

lemma shards_ok_insert_vertex:
  "shards_ok db \<Longrightarrow> shards_ok (insert_vertex vid_hash db v data)"
  by (simp add: shards_ok_def num_shards_def)

lemma shards_ok_insert_edge:
  "shards_ok db \<Longrightarrow> shards_ok (insert_edge edge_hash db s t data)"
  unfolding shards_ok_def
  by (auto simp: num_shards_def index_add_edge_in index_add_edge_out less_Suc_eq
      split: if_splits)

lemma shards_ok_add_mirror: "shards_ok db \<Longrightarrow> shards_ok (add_mirror db v k)"
  by (simp add: shards_ok_def num_shards_def)

lemma vertices_ok_insert_vertex:
  assumes "shards_ok db" and "vertices_ok vid_hash db" and "\<not> has_vertex (vertex_index db) v"
  shows "vertices_ok vid_hash (insert_vertex vid_hash db v data)"
proof -
  have m: "vid_hash v mod num_shards db < length (shards db)"
    using assms(1) by (simp add: shards_ok_def)
  have n: "num_shards (insert_vertex vid_hash db v data) = num_shards db"
    by (simp add: num_shards_def)
  show ?thesis
    unfolding vertices_ok_def n
  proof (intro allI impI)
    fix w i
    assume a: "vertex_index (insert_vertex vid_hash db v data) w = Some i"
    show "i < length (vertex_store (insert_vertex vid_hash db v data))
        \<and> vid2master (insert_vertex vid_hash db v data) w = Some (vid_hash w mod num_shards db)
        \<and> fst (vertex_store (insert_vertex vid_hash db v data) ! i) = vid_hash w mod num_shards db
        \<and> snd (vertex_store (insert_vertex vid_hash db v data) ! i)
            < length (vertex (shards (insert_vertex vid_hash db v data) ! (vid_hash w mod num_shards db)))
        \<and> vertex (shards (insert_vertex vid_hash db v data) ! (vid_hash w mod num_shards db))
            ! snd (vertex_store (insert_vertex vid_hash db v data) ! i) = w"
    proof (cases "w = v")
      case True
      then have "i = length (vertex_store db)" using a by simp
      then show ?thesis using True m by simp
    next
      case False
      then have b: "vertex_index db w = Some i" using a by simp
      then have c: "i < length (vertex_store db)
        \<and> vid2master db w = Some (vid_hash w mod num_shards db)
        \<and> fst (vertex_store db ! i) = vid_hash w mod num_shards db
        \<and> snd (vertex_store db ! i) < length (vertex (shards db ! (vid_hash w mod num_shards db)))
        \<and> vertex (shards db ! (vid_hash w mod num_shards db)) ! snd (vertex_store db ! i) = w"
        using assms(2) unfolding vertices_ok_def by blast
      then show ?thesis using False by (auto simp: nth_append)
    qed
  qed
qed

lemma vertices_ok_insert_edge:
  "vertices_ok vid_hash db \<Longrightarrow> vertices_ok vid_hash (insert_edge edge_hash db s t data)"
  unfolding vertices_ok_def by (simp add: num_shards_def)

lemma vertices_ok_add_mirror:
  "vertices_ok vid_hash db \<Longrightarrow> vertices_ok vid_hash (add_mirror db v k)"
  unfolding vertices_ok_def by (auto simp: num_shards_def add_mirror_vid2master)

lemma mirrors_ok_insert_vertex:
  assumes "mirrors_ok db" and "\<not> has_vertex (vertex_index db) v"
  shows "mirrors_ok (insert_vertex vid_hash db v data)"
proof -
  have e: "mirrors_of db v = []" using assms unfolding mirrors_ok_def by blast
  have mo: "\<And>w. mirrors_of (insert_vertex vid_hash db v data) w = mirrors_of db w"
    by (simp add: mirrors_of_eq)
  have ma: "\<And>w. w \<noteq> v \<Longrightarrow> master_of (insert_vertex vid_hash db v data) w = master_of db w"
    by (simp add: master_of_eq)
  have hv: "\<And>w. has_vertex (vertex_index db) w \<Longrightarrow>
      has_vertex (vertex_index (insert_vertex vid_hash db v data)) w"
    by (simp add: has_vertex_def)
  show ?thesis
    unfolding mirrors_ok_def mo
  proof (intro allI conjI impI ballI)
    fix w show "distinct (mirrors_of db w)" using assms(1) unfolding mirrors_ok_def by blast
  next
    fix w assume "mirrors_of db w \<noteq> []"
    then have "has_vertex (vertex_index db) w" using assms(1) unfolding mirrors_ok_def by blast
    then show "has_vertex (vertex_index (insert_vertex vid_hash db v data)) w" by (rule hv)
  next
    fix w k assume k: "k \<in> set (mirrors_of db w)"
    then have "w \<noteq> v" using e by auto
    then show "k \<noteq> master_of (insert_vertex vid_hash db v data) w"
      using k assms(1) ma unfolding mirrors_ok_def by auto
  next
    fix w k assume k: "k \<in> set (mirrors_of db w)"
    then show "k < num_shards (insert_vertex vid_hash db v data)"
      using assms(1) unfolding mirrors_ok_def by (auto simp: num_shards_def)
  qed
qed

lemma mirrors_ok_insert_edge:
  "mirrors_ok db \<Longrightarrow> mirrors_ok (insert_edge edge_hash db s t data)"
  unfolding mirrors_ok_def by (simp add: num_shards_def master_of_eq mirrors_of_eq)

lemma mirrors_ok_add_mirror:
  assumes "mirrors_ok db" and "has_vertex (vertex_index db) v" and "k < num_shards db"
  shows "mirrors_ok (add_mirror db v k)"
  using assms unfolding mirrors_ok_def
  by (auto simp: add_mirror_mirrors num_shards_def)

lemma db_inv_insert_vertex:
  "db_inv vid_hash db \<Longrightarrow> \<not> has_vertex (vertex_index db) v \<Longrightarrow>
   db_inv vid_hash (insert_vertex vid_hash db v data)"
  by (simp add: db_inv_def shards_ok_insert_vertex vertices_ok_insert_vertex
      mirrors_ok_insert_vertex)

lemma db_inv_insert_edge:
  "db_inv vid_hash db \<Longrightarrow> db_inv vid_hash (insert_edge edge_hash db s t data)"
  by (simp add: db_inv_def shards_ok_insert_edge vertices_ok_insert_edge mirrors_ok_insert_edge)

lemma db_inv_add_mirror:
  "db_inv vid_hash db \<Longrightarrow> has_vertex (vertex_index db) v \<Longrightarrow> k < num_shards db \<Longrightarrow>
   db_inv vid_hash (add_mirror db v k)"
  by (simp add: db_inv_def shards_ok_add_mirror vertices_ok_add_mirror mirrors_ok_add_mirror)

lemma add_vertex_total:
  assumes "shards_ok db"
  shows "add_vertex vid_hash db v data =
     (if has_vertex (vertex_index db) v then Inr (False, db)
      else Inr (True, insert_vertex vid_hash db v data))"
proof -
  have n: "0 < num_shards db" and l: "length (shards db) = num_shards db"
    using assms by (simp_all add: shards_ok_def)
  have "vid_hash v mod num_shards db < num_shards db" using n by simp
  then have "\<not> length (shards db) \<le> vid_hash v mod num_shards db" using l by simp
  then show ?thesis using n by (simp add: add_vertex_eq)
qed

lemma db_inv_add_vertex:
  "db_inv vid_hash db \<Longrightarrow> add_vertex vid_hash db v data = Inr (b, db1) \<Longrightarrow> db_inv vid_hash db1"
  by (auto simp: add_vertex_eq db_inv_insert_vertex split: if_splits)

lemma add_vertex_has:
  "add_vertex vid_hash db v data = Inr (b, db1) \<Longrightarrow> has_vertex (vertex_index db1) v"
  by (auto simp: add_vertex_eq has_vertex_def split: if_splits)

lemma add_vertex_keeps:
  "add_vertex vid_hash db v data = Inr (b, db1) \<Longrightarrow> has_vertex (vertex_index db) w \<Longrightarrow>
   has_vertex (vertex_index db1) w"
  by (auto simp: add_vertex_eq has_vertex_def split: if_splits)

lemma add_vertex_num_shards:
  "add_vertex vid_hash db v data = Inr (b, db1) \<Longrightarrow> num_shards db1 = num_shards db"
  by (auto simp: add_vertex_eq num_shards_def split: if_splits)

lemma db_inv_add_edge:
  assumes "db_inv vid_hash db" and "add_edge vid_hash edge_hash db s t data = Inr db1"
  shows "db_inv vid_hash db1"
proof -
  let ?k = "edge_hash (s, t) mod num_shards db"
  from assms(2) obtain b3 db3 b4 db4 where
    n: "0 < num_shards db"
    and a3: "add_vertex vid_hash (insert_edge edge_hash db s t data) s None = Inr (b3, db3)"
    and a4: "add_vertex vid_hash db3 t None = Inr (b4, db4)"
    and d: "db1 = add_mirror (add_mirror db4 s ?k) t ?k"
    by (rule add_edge_InrD)
  have i3: "db_inv vid_hash db3"
    using db_inv_add_vertex[OF db_inv_insert_edge[OF assms(1)] a3] .
  have i4: "db_inv vid_hash db4" using db_inv_add_vertex[OF i3 a4] .
  have hs: "has_vertex (vertex_index db4) s"
    using add_vertex_keeps[OF a4 add_vertex_has[OF a3]] .
  have ht: "has_vertex (vertex_index db4) t" using add_vertex_has[OF a4] .
  have ns: "num_shards db4 = num_shards db"
    using add_vertex_num_shards[OF a4] add_vertex_num_shards[OF a3] by (simp add: num_shards_def)
  have k: "?k < num_shards db4" using n ns by simp
  have i5: "db_inv vid_hash (add_mirror db4 s ?k)" using db_inv_add_mirror[OF i4 hs k] .
  have "db_inv vid_hash (add_mirror (add_mirror db4 s ?k) t ?k)"
    by (rule db_inv_add_mirror[OF i5]) (use ht k in \<open>simp_all add: num_shards_def\<close>)
  then show ?thesis using d by simp
qed

lemma same_maps_refl: "same_maps db db"
  by (simp add: same_maps_def)

lemma same_maps_trans: "same_maps a b \<Longrightarrow> same_maps b c \<Longrightarrow> same_maps a c"
  unfolding same_maps_def by (intro conjI allI impI) (auto dest: spec)

lemma same_layout_refl: "same_layout db db"
  by (simp add: same_layout_def)

lemma same_layout_trans: "same_layout a b \<Longrightarrow> same_layout b c \<Longrightarrow> same_layout a c"
  unfolding same_layout_def by (intro conjI allI impI) (auto dest: spec)

lemma grows_same_maps: "same_maps db db1 \<Longrightarrow> grows db db1"
  by (simp add: same_maps_def grows_def)

lemma grows_same_layout: "same_layout db db1 \<Longrightarrow> grows db db1"
  by (simp add: same_layout_def grows_def master_of_eq mirrors_of_eq)

lemma db_inv_same_maps:
  assumes "db_inv vid_hash db" and "same_maps db db1"
  shows "db_inv vid_hash db1"
proof -
  have s: "shards_ok db1"
    using assms unfolding db_inv_def shards_ok_def same_maps_def num_shards_def by simp
  have v: "vertices_ok vid_hash db1"
    using assms unfolding db_inv_def vertices_ok_def same_maps_def num_shards_def by auto
  have m: "mirrors_ok db1"
    using assms unfolding db_inv_def mirrors_ok_def same_maps_def num_shards_def by simp
  show ?thesis using s v m by (simp add: db_inv_def)
qed

lemma db_inv_same_layout:
  assumes "db_inv vid_hash db" and "same_layout db db1"
  shows "db_inv vid_hash db1"
proof -
  have l: "length (shards db) = num_shards db"
    using assms(1) by (simp add: db_inv_def shards_ok_def)
  have s: "shards_ok db1"
    using assms unfolding db_inv_def shards_ok_def same_layout_def num_shards_def by simp
  have v: "vertices_ok vid_hash db1"
    unfolding vertices_ok_def
  proof (intro allI impI)
    fix v i assume a: "vertex_index db1 v = Some i"
    have n: "0 < num_shards db" using assms(1) by (simp add: db_inv_def shards_ok_def)
    then have k: "vid_hash v mod num_shards db < length (shards db)" using l by simp
    have e: "vertex (shards db1 ! (vid_hash v mod num_shards db))
        = vertex (shards db ! (vid_hash v mod num_shards db))"
      using assms(2) k unfolding same_layout_def by blast
    have "vertex_index db v = Some i" using a assms(2) by (simp add: same_layout_def)
    then have "i < length (vertex_store db)
        \<and> vid2master db v = Some (vid_hash v mod num_shards db)
        \<and> fst (vertex_store db ! i) = vid_hash v mod num_shards db
        \<and> snd (vertex_store db ! i) < length (vertex (shards db ! (vid_hash v mod num_shards db)))
        \<and> vertex (shards db ! (vid_hash v mod num_shards db)) ! snd (vertex_store db ! i) = v"
      using assms(1) unfolding db_inv_def vertices_ok_def by blast
    moreover have "num_shards db1 = num_shards db" "vertex_store db1 = vertex_store db"
      "vid2master db1 = vid2master db"
      using assms(2) by (simp_all add: same_layout_def num_shards_def)
    ultimately show "i < length (vertex_store db1)
        \<and> vid2master db1 v = Some (vid_hash v mod num_shards db1)
        \<and> fst (vertex_store db1 ! i) = vid_hash v mod num_shards db1
        \<and> snd (vertex_store db1 ! i) < length (vertex (shards db1 ! (vid_hash v mod num_shards db1)))
        \<and> vertex (shards db1 ! (vid_hash v mod num_shards db1)) ! snd (vertex_store db1 ! i) = v"
      using e by simp
  qed
  have m: "mirrors_ok db1"
    using assms unfolding db_inv_def mirrors_ok_def same_layout_def num_shards_def
    by (simp add: master_of_eq mirrors_of_eq)
  show ?thesis using s v m by (simp add: db_inv_def)
qed

lemma same_maps_get_master: "same_maps db (snd (get_master db v))"
  by (simp add: same_maps_def get_master_def map_index_def master_of_eq mirrors_of_eq
      split: option.splits)

lemma same_maps_get_vertex: "same_maps db (snd (get_vertex db v))"
  by (simp add: same_maps_def get_vertex_def get_index_def map_index_def master_of_eq
      mirrors_of_eq split: option.splits)

lemma same_maps_default_mirrors:
  "same_maps db (db\<lparr>vid2mirrors := snd (map_index (vid2mirrors db) v [])\<rparr>)"
  by (simp add: same_maps_def map_index_def master_of_eq mirrors_of_eq split: option.splits)

lemma same_layout_store_vertex_row:
  "vertex_row db p = Some r \<Longrightarrow> same_layout db (store_vertex_row db p r1)"
  by (cases p)
     (auto simp: same_layout_def vertex_row_def store_vertex_row_def nth_list_update_full
        split: if_splits)

lemma same_layout_write_changes:
  "write_changes h db = Inr db1 \<Longrightarrow> same_layout db db1"
  by (auto simp: write_changes_def same_layout_store_vertex_row split: option.splits)

lemma append_copies_Nil [simp]: "append_copies shs a [] ret = ret"
  by (simp add: append_copies_def)

lemma append_copies_append:
  "append_copies shs a (ps @ qs) ret = append_copies shs a qs (append_copies shs a ps ret)"
  by (simp add: append_copies_def)

lemma positions_ok_simps [simp]:
  "positions_ok shs a []"
  "positions_ok shs a (p # ps) \<longleftrightarrow>
     (a < length shs \<and> p < length (edge (shs ! a)) \<and> p < length (edge_data (shs ! a)))
     \<and> positions_ok shs a ps"
  "positions_ok shs a (ps @ qs) \<longleftrightarrow> positions_ok shs a ps \<and> positions_ok shs a qs"
  by (auto simp: positions_ok_def)

lemma copy_edges_eq:
  "copy_edges shs a ps ret =
     (if positions_ok shs a ps then Inr (append_copies shs a ps ret) else Inl OutOfBounds)"
proof (induction ps arbitrary: ret)
  case Nil
  show ?case by simp
next
  case (Cons p ps)
  have e: "append_copies shs a ps
            (ret\<lparr>edge := edge ret @ [edge (shs ! a) ! p],
                 edge_data := edge_data ret @ [row_deepcopy (row_deepcopy (edge_data (shs ! a) ! p))],
                 edgeid := edgeid ret @ [p]\<rparr>)
        = append_copies shs a (p # ps) ret"
    by (simp add: append_copies_def row_deepcopy_def value_deepcopy_def)
  show ?case
    by (simp add: Cons.IH shard_add_edge_def shard_num_edges_def Let_def e)
qed

lemma adj_loop_Nil: "adj_loop db sid a [] ret = Inr (ret, db)"
  by simp

lemma adj_loop_Cons:
  "adj_loop db sid a (v # vs) ret =
     (if passes db sid a v then
        if length (edge_index db) \<le> a then Inl OutOfBounds
        else if positions_ok (shards db) a (adjacency db a v)
        then adj_loop (if sid = a then db
                       else db\<lparr>vid2mirrors := snd (map_index (vid2mirrors db) v [])\<rparr>)
               sid a vs (append_copies (shards db) a (adjacency db a v) ret)
        else Inl OutOfBounds
      else adj_loop (db\<lparr>vid2mirrors := snd (map_index (vid2mirrors db) v [])\<rparr>) sid a vs ret)"
  by (auto simp: passes_def adjacency_def mirrors_of_def copy_edges_eq get_edge_index_def
      append_copies_append split: prod.splits)

lemma passes_same_maps: "same_maps db db1 \<Longrightarrow> passes db1 sid a v = passes db sid a v"
  by (simp add: passes_def same_maps_def)

lemma adjacency_same_maps: "same_maps db db1 \<Longrightarrow> adjacency db1 a v = adjacency db a v"
  by (simp add: adjacency_def same_maps_def)

lemma adj_positions_same_maps:
  "same_maps db db1 \<Longrightarrow> adj_positions db1 sid a vs = adj_positions db sid a vs"
  by (simp add: adj_positions_def passes_same_maps adjacency_same_maps cong: filter_cong map_cong)

lemma adj_positions_Cons:
  "adj_positions db sid a (v # vs) =
     (if passes db sid a v then adjacency db a v @ adj_positions db sid a vs
      else adj_positions db sid a vs)"
  by (simp add: adj_positions_def)

lemma same_maps_step:
  "same_maps db (if sid = a then db
                 else db\<lparr>vid2mirrors := snd (map_index (vid2mirrors db) v [])\<rparr>)"
  by (simp add: same_maps_refl same_maps_default_mirrors)

lemma adj_loop_result:
  "adj_loop db sid a vs ret = Inr (d, db1) \<Longrightarrow>
   same_maps db db1 \<and> d = append_copies (shards db) a (adj_positions db sid a vs) ret
   \<and> positions_ok (shards db) a (adj_positions db sid a vs)"
proof (induction vs arbitrary: db ret)
  case Nil
  then show ?case by (simp add: same_maps_refl adj_positions_def)
next
  case (Cons v vs)
  let ?dbm = "db\<lparr>vid2mirrors := snd (map_index (vid2mirrors db) v [])\<rparr>"
  let ?dbs = "if sid = a then db else ?dbm"
  have sm: "same_maps db ?dbm" by (rule same_maps_default_mirrors)
  have ss: "same_maps db ?dbs" by (rule same_maps_step)
  show ?case
  proof (cases "passes db sid a v")
    case True
    with Cons.prems have ok: "positions_ok (shards db) a (adjacency db a v)"
      and r: "adj_loop ?dbs sid a vs (append_copies (shards db) a (adjacency db a v) ret)
                = Inr (d, db1)"
      by (auto simp: adj_loop_Cons simp del: adj_loop.simps split: if_splits)
    from Cons.IH[OF r] have ih: "same_maps ?dbs db1"
      "d = append_copies (shards ?dbs) a (adj_positions ?dbs sid a vs)
             (append_copies (shards db) a (adjacency db a v) ret)"
      "positions_ok (shards ?dbs) a (adj_positions ?dbs sid a vs)"
      by simp_all
    have sh: "shards ?dbs = shards db" using ss by (simp add: same_maps_def)
    have ap: "adj_positions ?dbs sid a vs = adj_positions db sid a vs"
      using ss by (rule adj_positions_same_maps)
    show ?thesis
      using ih ok True same_maps_trans[OF ss ih(1)]
      unfolding sh ap by (simp add: adj_positions_Cons append_copies_append)
  next
    case False
    with Cons.prems have r: "adj_loop ?dbm sid a vs ret = Inr (d, db1)"
      by (simp add: adj_loop_Cons del: adj_loop.simps)
    from Cons.IH[OF r] have ih: "same_maps ?dbm db1"
      "d = append_copies (shards ?dbm) a (adj_positions ?dbm sid a vs) ret"
      "positions_ok (shards ?dbm) a (adj_positions ?dbm sid a vs)"
      by simp_all
    have sh: "shards ?dbm = shards db" by simp
    have ap: "adj_positions ?dbm sid a vs = adj_positions db sid a vs"
      using sm by (rule adj_positions_same_maps)
    show ?thesis
      using ih False same_maps_trans[OF sm ih(1)]
      unfolding sh ap by (simp add: adj_positions_Cons)
  qed
qed

lemma adj_loop_total:
  assumes "a < length (edge_index db)"
    and "\<forall>v. positions_ok (shards db) a (adjacency db a v)"
  shows "\<exists>d db1. adj_loop db sid a vs ret = Inr (d, db1)"
  using assms
proof (induction vs arbitrary: db ret)
  case Nil
  show ?case by simp
next
  case (Cons v vs)
  let ?dbm = "db\<lparr>vid2mirrors := snd (map_index (vid2mirrors db) v [])\<rparr>"
  let ?dbs = "if sid = a then db else ?dbm"
  have ss: "same_maps db ?dbs" by (rule same_maps_step)
  have sm: "same_maps db ?dbm" by (rule same_maps_default_mirrors)
  have p1: "a < length (edge_index ?dbs)" "\<forall>v. positions_ok (shards ?dbs) a (adjacency ?dbs a v)"
    using Cons.prems adjacency_same_maps[OF ss] by (simp_all split: if_splits)
  have p2: "a < length (edge_index ?dbm)" "\<forall>v. positions_ok (shards ?dbm) a (adjacency ?dbm a v)"
    using Cons.prems adjacency_same_maps[OF sm] by simp_all
  show ?case
    using Cons.IH[OF p1] Cons.IH[OF p2] Cons.prems
    by (simp add: adj_loop_Cons del: adj_loop.simps)
qed

lemma positions_ok_inv:
  assumes "shards_ok db" and "a < num_shards db"
  shows "positions_ok (shards db) a (adjacency db a v)"
  using assms unfolding shards_ok_def positions_ok_def adjacency_def
  by auto

lemma commit_fields_unmodified:
  "\<forall>val \<in> set vals. \<not> get_modified val \<Longrightarrow> commit_fields j vals origin = Inr (vals, origin)"
  by (induction vals arbitrary: j) simp_all

lemma commit_fields_single:
  assumes "\<forall>x \<in> set fpre. \<not> get_modified x" and "\<forall>x \<in> set fpost. \<not> get_modified x"
    and "get_modified val" and "j + length fpre < length origin"
  shows "commit_fields j (fpre @ val # fpost) origin =
           Inr (fpre @ post_commit_state val # fpost,
                origin[j + length fpre := post_commit_state val])"
  using assms
proof (induction fpre arbitrary: j)
  case Nil
  then show ?case by (simp add: commit_fields_unmodified value_deepcopy_def)
next
  case (Cons x fpre)
  have "commit_fields (Suc j) (fpre @ val # fpost) origin =
           Inr (fpre @ post_commit_state val # fpost,
                origin[Suc j + length fpre := post_commit_state val])"
    using Cons.prems by (intro Cons.IH) simp_all
  then show ?case using Cons.prems by simp
qed

lemma commit_fields_lengths:
  "commit_fields j vals origin = Inr (ls, origin1) \<Longrightarrow>
   length origin1 = length origin \<and> length ls = length vals"
proof (induction vals arbitrary: j origin ls origin1)
  case Nil
  then show ?case by simp
next
  case (Cons val vals)
  then show ?case
    by (fastforce split: if_splits sum.splits prod.splits)
qed

lemma same_layout_edge_rows:
  assumes "ident < length (shards db)"
  shows "same_layout db
     (db\<lparr>shards := (shards db)[ident := (shards db ! ident)
           \<lparr>edge_data := (edge_data (shards db ! ident))[pos := r]\<rparr>]\<rparr>)"
  using assms by (simp add: same_layout_def nth_list_update_full)

lemma same_layout_commit_edge_row:
  "commit_edge_row db ident pos local = Inr (l1, db1) \<Longrightarrow> same_layout db db1"
  by (auto simp: commit_edge_row_def Let_def same_layout_edge_rows
      split: if_splits sum.splits prod.splits)

lemma commit_edges_Cons:
  "commit_edges db sh i (local # rest) =
     (if 0 < length (edgeid sh) \<and> length (edgeid sh) \<le> i then Inl OutOfBounds
      else
        case commit_edge_row db (shard_id sh) (origin_pos sh i) local of
          Inl e \<Rightarrow> Inl e
        | Inr (local1, db1) \<Rightarrow>
            (case commit_edges db1 sh (Suc i) rest of
               Inl e \<Rightarrow> Inl e
             | Inr (rest1, db2) \<Rightarrow> Inr (local1 # rest1, db2)))"
  by (simp add: Let_def origin_pos_def)

lemma same_layout_commit_edges:
  "commit_edges db sh i rows = Inr (rows1, db1) \<Longrightarrow> same_layout db db1"
proof (induction rows arbitrary: db i rows1)
  case Nil
  then show ?case by (simp add: same_layout_refl)
next
  case (Cons local rest)
  from Cons.prems obtain l1 dbm r1 where
    a: "commit_edge_row db (shard_id sh) (origin_pos sh i) local = Inr (l1, dbm)"
    and b: "commit_edges dbm sh (Suc i) rest = Inr (r1, db1)"
    by (auto simp: commit_edges_Cons simp del: commit_edges.simps
        split: if_splits sum.splits prod.splits)
  show ?case
    using same_layout_commit_edge_row[OF a] Cons.IH[OF b] by (rule same_layout_trans)
qed

lemma same_layout_commit_shard:
  "commit_shard db sh = Inr (db1, sh1) \<Longrightarrow> same_layout db db1"
  by (auto simp: commit_shard_def Let_def same_layout_commit_edges
      split: if_splits sum.splits prod.splits)

lemma same_maps_get_shard_contents:
  "get_shard_contents_adj_to db sid a = Inr (d, db1) \<Longrightarrow> same_maps db db1"
  by (auto simp: get_shard_contents_adj_to_def dest: adj_loop_result split: if_splits)

lemma step_cases:
  assumes "step vid_hash edge_hash db x = Inr db1"
  shows "(\<exists>v data b. x = AddVertex v data \<and> add_vertex vid_hash db v data = Inr (b, db1))
       \<or> (\<exists>s t data. x = AddEdge s t data \<and> add_edge vid_hash edge_hash db s t data = Inr db1)
       \<or> same_maps db db1 \<or> same_layout db db1
       \<or> (\<exists>dbm. same_maps db dbm \<and> same_layout dbm db1)"
proof (cases x)
  case (AddVertex v data)
  then show ?thesis using assms by (auto split: sum.splits)
next
  case (AddEdge s t data)
  then show ?thesis using assms by simp
next
  case (GetMaster v)
  then show ?thesis using assms same_maps_get_master[of db v] by auto
next
  case (GetVertex v)
  then show ?thesis using assms same_maps_get_vertex[of db v] by auto
next
  case (WriteChanges v)
  obtain ho dbm where g: "get_vertex db v = (ho, dbm)" by (cases "get_vertex db v")
  then have sm: "same_maps db dbm" using same_maps_get_vertex[of db v] by simp
  show ?thesis
  proof (cases ho)
    case None
    then show ?thesis using assms WriteChanges g sm by simp
  next
    case (Some h)
    then have "write_changes h dbm = Inr db1" using assms WriteChanges g by simp
    then have "same_layout dbm db1" by (rule same_layout_write_changes)
    then show ?thesis using sm by blast
  qed
next
  case (GetShardContentsAdjTo a b)
  then show ?thesis using assms
    by (auto split: sum.splits dest: same_maps_get_shard_contents)
next
  case (CommitShard sh)
  then show ?thesis using assms
    by (auto split: sum.splits dest: same_layout_commit_shard)
qed

lemma grows_step: "step vid_hash edge_hash db x = Inr db1 \<Longrightarrow> grows db db1"
  using step_cases[of vid_hash edge_hash db x db1]
  by (auto intro: grows_add_vertex grows_add_edge grows_same_maps grows_same_layout
        grows_trans)

lemma db_inv_step:
  "db_inv vid_hash db \<Longrightarrow> step vid_hash edge_hash db x = Inr db1 \<Longrightarrow> db_inv vid_hash db1"
  using step_cases[of vid_hash edge_hash db x db1]
  by (auto intro: db_inv_add_vertex db_inv_add_edge db_inv_same_maps db_inv_same_layout)

lemma run_Cons_Inr:
  "run vid_hash edge_hash db (x # xs) = Inr db2 \<Longrightarrow>
   \<exists>db1. step vid_hash edge_hash db x = Inr db1 \<and> run vid_hash edge_hash db1 xs = Inr db2"
  by (simp split: sum.splits)

lemma grows_run: "run vid_hash edge_hash db xs = Inr db1 \<Longrightarrow> grows db db1"
proof (induction xs arbitrary: db)
  case Nil
  then show ?case by (simp add: grows_refl)
next
  case (Cons x xs)
  then show ?case using run_Cons_Inr[OF Cons.prems] grows_step grows_trans by blast
qed

lemma db_inv_run:
  "db_inv vid_hash db \<Longrightarrow> run vid_hash edge_hash db xs = Inr db1 \<Longrightarrow> db_inv vid_hash db1"
proof (induction xs arbitrary: db)
  case Nil
  then show ?case by simp
next
  case (Cons x xs)
  then show ?case using run_Cons_Inr[OF Cons.prems(2)] db_inv_step by blast
qed

lemma db_inv_new_database:
  "0 < n \<Longrightarrow> db_inv vid_hash (new_database vfields efields n)"
  by (simp add: db_inv_def shards_ok_def vertices_ok_def mirrors_ok_def new_database_def
      num_shards_def new_graph_shard_def new_edge_index_def mirrors_of_eq)

lemma db_inv_reachable:
  "0 < n \<Longrightarrow> run vid_hash edge_hash (new_database vfields efields n) xs = Inr db \<Longrightarrow>
   db_inv vid_hash db"
  using db_inv_new_database db_inv_run by blast

text \<open>The index holds exactly the vids that were asked for.\<close>

lemma dom_same_maps: "same_maps db db1 \<Longrightarrow> vertex_index db1 = vertex_index db"
  by (simp add: same_maps_def)

lemma dom_same_layout: "same_layout db db1 \<Longrightarrow> vertex_index db1 = vertex_index db"
  by (simp add: same_layout_def)

lemma dom_add_vertex:
  "add_vertex vid_hash db v data = Inr (b, db1) \<Longrightarrow>
   dom (vertex_index db1) = insert v (dom (vertex_index db))"
  by (auto simp: add_vertex_eq has_vertex_def split: if_splits)

lemma dom_add_edge:
  assumes "add_edge vid_hash edge_hash db s t data = Inr db1"
  shows "dom (vertex_index db1) = insert s (insert t (dom (vertex_index db)))"
proof -
  from assms obtain b3 db3 b4 db4 where
    a3: "add_vertex vid_hash (insert_edge edge_hash db s t data) s None = Inr (b3, db3)"
    and a4: "add_vertex vid_hash db3 t None = Inr (b4, db4)"
    and d: "db1 = add_mirror (add_mirror db4 s (edge_hash (s, t) mod num_shards db)) t
             (edge_hash (s, t) mod num_shards db)"
    by (rule add_edge_InrD)
  show ?thesis
    using dom_add_vertex[OF a3] dom_add_vertex[OF a4] unfolding d by auto
qed

lemma dom_step:
  assumes "step vid_hash edge_hash db x = Inr db1"
  shows "dom (vertex_index db1) = dom (vertex_index db) \<union> set (op_vids x)"
proof (cases x)
  case (AddVertex v data)
  then obtain b where "add_vertex vid_hash db v data = Inr (b, db1)"
    using assms by (auto split: sum.splits)
  from dom_add_vertex[OF this] show ?thesis using AddVertex by simp
next
  case (AddEdge s t data)
  then have "add_edge vid_hash edge_hash db s t data = Inr db1" using assms by simp
  from dom_add_edge[OF this] show ?thesis using AddEdge by auto
next
  case (GetMaster v)
  then show ?thesis using step_cases[OF assms] by (auto simp: dom_same_maps dom_same_layout)
next
  case (GetVertex v)
  then show ?thesis using step_cases[OF assms] by (auto simp: dom_same_maps dom_same_layout)
next
  case (WriteChanges v)
  then show ?thesis using step_cases[OF assms] by (auto simp: dom_same_maps dom_same_layout)
next
  case (GetShardContentsAdjTo a b)
  then show ?thesis using step_cases[OF assms] by (auto simp: dom_same_maps dom_same_layout)
next
  case (CommitShard sh)
  then show ?thesis using step_cases[OF assms] by (auto simp: dom_same_maps dom_same_layout)
qed

lemma dom_run:
  "run vid_hash edge_hash db xs = Inr db1 \<Longrightarrow>
   dom (vertex_index db1) = dom (vertex_index db) \<union> added_vids xs"
proof (induction xs arbitrary: db)
  case Nil
  then show ?case by (simp add: added_vids_def)
next
  case (Cons x xs)
  from run_Cons_Inr[OF Cons.prems] obtain dbm where
    s: "step vid_hash edge_hash db x = Inr dbm" and r: "run vid_hash edge_hash dbm xs = Inr db1"
    by blast
  show ?case using dom_step[OF s] Cons.IH[OF r] by (auto simp: added_vids_def)
qed

section \<open>add_vertex\<close>

text \<open>
  C5. If \<open>v\<close> is already indexed, \<^verbatim>\<open>add_vertex(v)\<close> returns false and leaves the
  database unchanged. If \<open>v\<close> is not indexed (and the database has its shards),
  \<^verbatim>\<open>add_vertex(v)\<close> returns true, \<^verbatim>\<open>num_vertices()\<close> grows by exactly one, and a
  second \<^verbatim>\<open>add_vertex(v)\<close> returns false.
\<close>

theorem add_vertex_once:
  "(has_vertex (vertex_index db) v \<longrightarrow> add_vertex vid_hash db v data = Inr (False, db)) \<and>
   (\<not> has_vertex (vertex_index db) v \<and> 0 < num_shards db
      \<and> num_shards db \<le> length (shards db) \<longrightarrow>
      (\<exists>db1. add_vertex vid_hash db v data = Inr (True, db1)
         \<and> num_vertices db1 = num_vertices db + 1
         \<and> has_vertex (vertex_index db1) v
         \<and> add_vertex vid_hash db1 v data2 = Inr (False, db1)))"
proof (intro conjI impI)
  assume "has_vertex (vertex_index db) v"
  then show "add_vertex vid_hash db v data = Inr (False, db)"
    by (rule add_vertex_known)
next
  assume a: "\<not> has_vertex (vertex_index db) v \<and> 0 < num_shards db
    \<and> num_shards db \<le> length (shards db)"
  then obtain db1 where d: "add_vertex vid_hash db v data = Inr (True, db1)"
    and h: "has_vertex (vertex_index db1) v"
    and n: "num_vertices db1 = num_vertices db + 1"
    using add_vertex_fresh[of db v vid_hash data]
    by (simp add: has_vertex_def num_vertices_def)
  have "add_vertex vid_hash db1 v data2 = Inr (False, db1)"
    using h by (rule add_vertex_known)
  with d h n show "\<exists>db1. add_vertex vid_hash db v data = Inr (True, db1)
         \<and> num_vertices db1 = num_vertices db + 1
         \<and> has_vertex (vertex_index db1) v
         \<and> add_vertex vid_hash db1 v data2 = Inr (False, db1)" by blast
qed

theorem add_vertex_once_witness:
  "\<not> has_vertex (vertex_index (new_database [] [] 2)) 5
   \<and> 0 < num_shards (new_database [] [] 2)
   \<and> num_shards (new_database [] [] 2) \<le> length (shards (new_database [] [] 2))
   \<and> (\<exists>db1. add_vertex hash_id (new_database [] [] 2) 5 None = Inr (True, db1)
         \<and> num_vertices db1 = num_vertices (new_database [] [] 2) + 1
         \<and> has_vertex (vertex_index db1) 5
         \<and> add_vertex hash_id db1 5 (Some dirty_row) = Inr (False, db1))"
proof -
  have h: "\<not> has_vertex (vertex_index (new_database [] [] 2)) 5
     \<and> 0 < num_shards (new_database [] [] 2)
     \<and> num_shards (new_database [] [] 2) \<le> length (shards (new_database [] [] 2))"
    by (simp add: new_database_def has_vertex_def num_shards_def)
  from h add_vertex_once[of "new_database [] [] 2" 5 hash_id None "Some dirty_row"]
  show ?thesis by blast
qed

section \<open>Vertex handles: write_changes\<close>

lemma commit_value_not_modified: "\<not> get_modified (commit_value val)"
  by (simp add: commit_value_def get_modified_def post_commit_state_def)

lemma commit_value_idem: "commit_value (commit_value val) = commit_value val"
  by (simp add: commit_value_def get_modified_def post_commit_state_def)

lemma row_write_changes_idem: "row_write_changes (row_write_changes r) = row_write_changes r"
  by (simp add: row_write_changes_def commit_value_idem)

lemma all_committed:
  "list_all (\<lambda>val. \<not> get_modified val) (row_values (row_write_changes r))"
  by (simp add: row_write_changes_def list_all_iff commit_value_not_modified)

lemma vertex_row_store:
  "vertex_row db (s, i) = Some r \<Longrightarrow>
   vertex_row (store_vertex_row db (s, i) r') (s, i) = Some r'"
  by (simp add: vertex_row_def store_vertex_row_def split: if_splits)

lemma store_vertex_row_twice:
  "store_vertex_row (store_vertex_row db (s, i) r) (s, i) r = store_vertex_row db (s, i) r"
proof (cases "s < length (shards db)")
  case True
  then show ?thesis by (simp add: store_vertex_row_def)
next
  case False
  then show ?thesis by (simp add: store_vertex_row_def list_update_beyond)
qed

lemma write_changes_at:
  "vertex_row db p = Some r \<Longrightarrow> vdata h = p \<Longrightarrow>
   write_changes h db = Inr (store_vertex_row db p (row_write_changes r))"
  by (simp add: write_changes_def)

text \<open>
  C6. For a vertex handle whose pointer names a row \<open>r\<close> of the database,
  \<^verbatim>\<open>write_changes()\<close> returns, the row becomes the committed row in which no field
  is marked modified, and a second \<^verbatim>\<open>write_changes()\<close> (or one of its two synonyms)
  leaves the whole database as the first call left it.
\<close>

theorem write_changes_idempotent:
  assumes "vertex_row db (vdata h) = Some r"
  shows "\<exists>db1. write_changes h db = Inr db1 \<and> write_changes h db1 = Inr db1
           \<and> write_changes_async h db1 = Inr db1 \<and> write_and_refresh h db1 = Inr db1
           \<and> vertex_row db1 (vdata h) = Some (row_write_changes r)
           \<and> list_all (\<lambda>val. \<not> get_modified val) (row_values (row_write_changes r))
           \<and> row_write_changes (row_write_changes r) = row_write_changes r"
proof -
  obtain s i where p: "vdata h = (s, i)" by (cases "vdata h")
  define db1 where "db1 = store_vertex_row db (s, i) (row_write_changes r)"
  have r0: "vertex_row db (s, i) = Some r" using assms p by simp
  have 1: "write_changes h db = Inr db1"
    unfolding db1_def using r0 p by (rule write_changes_at)
  have 2: "vertex_row db1 (s, i) = Some (row_write_changes r)"
    unfolding db1_def using r0 by (rule vertex_row_store)
  have "write_changes h db1 =
      Inr (store_vertex_row db1 (s, i) (row_write_changes (row_write_changes r)))"
    using 2 p by (rule write_changes_at)
  then have 3: "write_changes h db1 = Inr db1"
    unfolding db1_def by (simp only: row_write_changes_idem store_vertex_row_twice)
  have 5: "vertex_row db1 (vdata h) = Some (row_write_changes r)" using 2 p by simp
  from 1 3 5 all_committed[of r] row_write_changes_idem[of r]
  show ?thesis
    unfolding write_changes_async_def write_and_refresh_def by blast
qed

theorem write_changes_idempotent_witness:
  "vertex_row db_one_vertex (vdata (the (fst (get_vertex db_one_vertex 7))))
     = Some (dirty_row\<lparr>is_vertex := True\<rparr>)
   \<and> (\<exists>db1. write_changes (the (fst (get_vertex db_one_vertex 7))) db_one_vertex = Inr db1
         \<and> write_changes (the (fst (get_vertex db_one_vertex 7))) db1 = Inr db1
         \<and> vertex_row db1 (vdata (the (fst (get_vertex db_one_vertex 7))))
             = Some (row_write_changes (dirty_row\<lparr>is_vertex := True\<rparr>)))"
proof -
  have h: "vertex_row db_one_vertex (vdata (the (fst (get_vertex db_one_vertex 7))))
     = Some (dirty_row\<lparr>is_vertex := True\<rparr>)"
    by (simp add: eval_defs)
  from h write_changes_idempotent[OF h] show ?thesis by blast
qed

section \<open>find_vertex\<close>

text \<open>
  C8. For every field position and value, both overloads of \<^verbatim>\<open>find_vertex\<close> signal
  that the operation is unsupported: the call ends in the failed assertion, or (were the
  assertion not fatal) returns false with \<^verbatim>\<open>out_vids\<close> untouched. It never reports
  success, so it never hands back a result set, empty or not.
\<close>

theorem find_vertex_unsupported:
  "find_vertex_int assert_fatal db fieldpos ival out_vids
     = (if assert_fatal then Inl AssertionFailed else Inr (False, out_vids))
   \<and> find_vertex_string assert_fatal db fieldpos sval out_vids
     = (if assert_fatal then Inl AssertionFailed else Inr (False, out_vids))
   \<and> (\<forall>vids. find_vertex_int assert_fatal db fieldpos ival out_vids \<noteq> Inr (True, vids))
   \<and> (\<forall>vids. find_vertex_string assert_fatal db fieldpos sval out_vids \<noteq> Inr (True, vids))"
  by (simp add: find_vertex_int_def find_vertex_string_def)

section \<open>Edge handles\<close>

text \<open>
  C9. For every edge handle, \<^verbatim>\<open>write_changes()\<close>, \<^verbatim>\<open>write_changes_async()\<close>,
  \<^verbatim>\<open>refresh()\<close> and \<^verbatim>\<open>write_and_refresh()\<close> leave the handle and the whole
  database, so also the edge's row with all its flags, as they were.
\<close>

theorem edge_sync_noop:
  "edge_write_changes e db = (e, db)
   \<and> edge_write_changes_async e db = (e, db)
   \<and> edge_refresh e db = (e, db)
   \<and> edge_write_and_refresh e db = (e, db)
   \<and> edge_row (snd (edge_write_changes e db)) (cache (fst (edge_write_changes e db)))
        = edge_row db (cache e)"
  by (simp add: edge_write_changes_def edge_write_changes_async_def edge_refresh_def
      edge_write_and_refresh_def)

section \<open>add_edge and the mirror sets\<close>

lemma row_deepcopy_id: "row_deepcopy r = r"
proof -
  have "map value_deepcopy (row_values r) = row_values r"
    by (induction "row_values r") (simp_all add: value_deepcopy_def map_idI)
  then show ?thesis by (simp add: row_deepcopy_def)
qed

lemma add_vertex_edges:
  assumes "add_vertex vid_hash db v data = Inr (b, db1)"
  shows "edge (shards db1 ! k) = edge (shards db ! k)"
    and "edge_data (shards db1 ! k) = edge_data (shards db ! k)"
    and "m_num_edges db1 = m_num_edges db"
    and "m_num_shards db1 = m_num_shards db"
    and "length (shards db1) = length (shards db)"
  using assms by (auto simp: add_vertex_eq split: if_splits)

lemma add_edge_stored:
  assumes "add_edge vid_hash edge_hash db s t data = Inr db1"
  shows "edge (shards db1 ! k) =
           (if k = edge_hash (s, t) mod num_shards db then edge (shards db ! k) @ [(s, t)]
            else edge (shards db ! k))"
    and "length (edge_data (shards db1 ! k)) =
           (if k = edge_hash (s, t) mod num_shards db then Suc (length (edge_data (shards db ! k)))
            else length (edge_data (shards db ! k)))"
    and "num_edges db1 = num_edges db + 1"
    and "num_shards db1 = num_shards db"
proof -
  from assms obtain b3 db3 b4 db4 where
    k: "edge_hash (s, t) mod num_shards db < length (shards db)"
    and a3: "add_vertex vid_hash (insert_edge edge_hash db s t data) s None = Inr (b3, db3)"
    and a4: "add_vertex vid_hash db3 t None = Inr (b4, db4)"
    and d: "db1 = add_mirror (add_mirror db4 s (edge_hash (s, t) mod num_shards db)) t
             (edge_hash (s, t) mod num_shards db)"
    by (rule add_edge_InrD)
  show "edge (shards db1 ! k) =
           (if k = edge_hash (s, t) mod num_shards db then edge (shards db ! k) @ [(s, t)]
            else edge (shards db ! k))"
    unfolding d using k by (simp add: add_vertex_edges(1)[OF a4] add_vertex_edges(1)[OF a3])
  show "length (edge_data (shards db1 ! k)) =
           (if k = edge_hash (s, t) mod num_shards db then Suc (length (edge_data (shards db ! k)))
            else length (edge_data (shards db ! k)))"
    unfolding d using k by (simp add: add_vertex_edges(2)[OF a4] add_vertex_edges(2)[OF a3])
  show "num_edges db1 = num_edges db + 1"
    unfolding d num_edges_def
    by (simp add: add_vertex_edges(3)[OF a4] add_vertex_edges(3)[OF a3])
  show "num_shards db1 = num_shards db"
    unfolding d num_shards_def
    by (simp add: add_vertex_edges(4)[OF a4] add_vertex_edges(4)[OF a3])
qed

lemma add_edge_row_stored:
  assumes "add_edge vid_hash edge_hash db s t data = Inr db1"
  shows "edge_data (shards db1 ! (edge_hash (s, t) mod num_shards db)) =
           edge_data (shards db ! (edge_hash (s, t) mod num_shards db)) @
             [(case data of None \<Rightarrow> new_graph_row (edge_fields db) | Some r \<Rightarrow> r)
                \<lparr>is_vertex := False\<rparr>]"
proof -
  from assms obtain b3 db3 b4 db4 where
    k: "edge_hash (s, t) mod num_shards db < length (shards db)"
    and a3: "add_vertex vid_hash (insert_edge edge_hash db s t data) s None = Inr (b3, db3)"
    and a4: "add_vertex vid_hash db3 t None = Inr (b4, db4)"
    and d: "db1 = add_mirror (add_mirror db4 s (edge_hash (s, t) mod num_shards db)) t
             (edge_hash (s, t) mod num_shards db)"
    by (rule add_edge_InrD)
  show ?thesis
    unfolding d using k
    by (simp add: add_vertex_edges(2)[OF a4] add_vertex_edges(2)[OF a3] shards_insert_edge
        row_deepcopy_id)
qed

lemma add_mirror_in:
  "master_of db v \<noteq> k \<Longrightarrow> k \<in> set (mirrors_of (add_mirror db v k) v)"
  by (simp add: add_mirror_mirrors)

lemma add_mirror_mono: "set (mirrors_of db w) \<subseteq> set (mirrors_of (add_mirror db v k) w)"
  using grows_add_mirror[of db v k] by (simp add: grows_def)

lemma add_edge_mirrors:
  assumes "add_edge vid_hash edge_hash db s t data = Inr db1"
  shows "(edge_hash (s, t) mod num_shards db \<noteq> master_of db1 s \<longrightarrow>
            edge_hash (s, t) mod num_shards db \<in> set (mirrors_of db1 s))
       \<and> (edge_hash (s, t) mod num_shards db \<noteq> master_of db1 t \<longrightarrow>
            edge_hash (s, t) mod num_shards db \<in> set (mirrors_of db1 t))"
proof -
  let ?k = "edge_hash (s, t) mod num_shards db"
  from assms obtain db4 where
    d: "db1 = add_mirror (add_mirror db4 s ?k) t ?k"
    by (auto elim: add_edge_InrD)
  have ms: "master_of db1 s = master_of db4 s" and mt: "master_of db1 t = master_of (add_mirror db4 s ?k) t"
    unfolding d by simp_all
  have 1: "?k \<in> set (mirrors_of db1 s)" if "?k \<noteq> master_of db1 s"
  proof -
    have "?k \<in> set (mirrors_of (add_mirror db4 s ?k) s)"
      using that ms add_mirror_in[of db4 s ?k] by simp
    then show ?thesis unfolding d using add_mirror_mono by blast
  qed
  have 2: "?k \<in> set (mirrors_of db1 t)" if "?k \<noteq> master_of db1 t"
    unfolding d using that mt add_mirror_in[of "add_mirror db4 s ?k" t ?k] by simp
  show ?thesis using 1 2 by blast
qed

lemma add_vertex_returns:
  "shards_ok db \<Longrightarrow> \<exists>b db1. add_vertex vid_hash db v data = Inr (b, db1)"
  by (cases "has_vertex (vertex_index db) v") (auto simp: add_vertex_total)

lemma add_edge_total:
  assumes "db_inv vid_hash db"
  shows "\<exists>db1. add_edge vid_hash edge_hash db s t data = Inr db1"
proof -
  let ?k = "edge_hash (s, t) mod num_shards db"
  have so: "shards_ok db" using assms by (simp add: db_inv_def)
  then have n: "0 < num_shards db" and l: "length (shards db) = num_shards db"
    and le: "length (edge_index db) = num_shards db"
    by (simp_all add: shards_ok_def)
  have k: "?k < num_shards db" using n by simp
  have s2: "shards_ok (insert_edge edge_hash db s t data)"
    using so by (rule shards_ok_insert_edge)
  obtain b3 db3 where a3:
    "add_vertex vid_hash (insert_edge edge_hash db s t data) s None = Inr (b3, db3)"
    using add_vertex_returns[OF s2] by blast
  have "db_inv vid_hash db3"
    using db_inv_add_vertex[OF db_inv_insert_edge[OF assms] a3] .
  then have "shards_ok db3" by (simp add: db_inv_def)
  then obtain b4 db4 where a4: "add_vertex vid_hash db3 t None = Inr (b4, db4)"
    using add_vertex_returns by blast
  show ?thesis
    using n k l le a3 a4 by (simp add: add_edge_eq)
qed

lemma num_shards_step:
  "step vid_hash edge_hash db x = Inr db1 \<Longrightarrow> num_shards db1 = num_shards db"
  using step_cases[of vid_hash edge_hash db x db1]
  by (auto simp: same_maps_def same_layout_def num_shards_def
      dest!: add_vertex_num_shards add_edge_stored(4))

lemma num_shards_run:
  "run vid_hash edge_hash db xs = Inr db1 \<Longrightarrow> num_shards db1 = num_shards db"
proof (induction xs arbitrary: db)
  case Nil
  then show ?case by simp
next
  case (Cons x xs)
  then show ?case using run_Cons_Inr[OF Cons.prems] num_shards_step by metis
qed

text \<open>
  C3. When \<^verbatim>\<open>add_edge(s, t)\<close> returns, the edge is at the end of shard
  \<open>k = edge_hash (s, t) mod num_shards\<close>, and if \<open>k\<close> differs from the master shard of
  \<open>s\<close> then \<open>k\<close> is in the mirror set of \<open>s\<close>; the same for \<open>t\<close>. Across any sequence
  of operations the mirror set of a vid loses no element, and a vertex stays a vertex
  with the same master shard.
\<close>

theorem mirror_invariant:
  "(add_edge vid_hash edge_hash db s t data = Inr db1 \<longrightarrow>
      edge (shards db1 ! (edge_hash (s, t) mod num_shards db))
        = edge (shards db ! (edge_hash (s, t) mod num_shards db)) @ [(s, t)]
      \<and> (edge_hash (s, t) mod num_shards db \<noteq> master_of db1 s \<longrightarrow>
            edge_hash (s, t) mod num_shards db \<in> set (mirrors_of db1 s))
      \<and> (edge_hash (s, t) mod num_shards db \<noteq> master_of db1 t \<longrightarrow>
            edge_hash (s, t) mod num_shards db \<in> set (mirrors_of db1 t)))
   \<and> (run vid_hash edge_hash db xs = Inr db2 \<longrightarrow>
        set (mirrors_of db v) \<subseteq> set (mirrors_of db2 v)
        \<and> (has_vertex (vertex_index db) v \<longrightarrow>
              has_vertex (vertex_index db2) v \<and> master_of db2 v = master_of db v))"
proof (intro conjI impI)
  assume a: "add_edge vid_hash edge_hash db s t data = Inr db1"
  show "edge (shards db1 ! (edge_hash (s, t) mod num_shards db))
        = edge (shards db ! (edge_hash (s, t) mod num_shards db)) @ [(s, t)]"
    using add_edge_stored(1)[OF a, of "edge_hash (s, t) mod num_shards db"] by simp
next
  assume a: "add_edge vid_hash edge_hash db s t data = Inr db1"
    and "edge_hash (s, t) mod num_shards db \<noteq> master_of db1 s"
  then show "edge_hash (s, t) mod num_shards db \<in> set (mirrors_of db1 s)"
    using add_edge_mirrors[OF a] by blast
next
  assume a: "add_edge vid_hash edge_hash db s t data = Inr db1"
    and "edge_hash (s, t) mod num_shards db \<noteq> master_of db1 t"
  then show "edge_hash (s, t) mod num_shards db \<in> set (mirrors_of db1 t)"
    using add_edge_mirrors[OF a] by blast
next
  assume "run vid_hash edge_hash db xs = Inr db2"
  then show "set (mirrors_of db v) \<subseteq> set (mirrors_of db2 v)"
    using grows_run unfolding grows_def by blast
next
  assume "run vid_hash edge_hash db xs = Inr db2" and "has_vertex (vertex_index db) v"
  then show "has_vertex (vertex_index db2) v"
    using grows_run unfolding grows_def by blast
next
  assume "run vid_hash edge_hash db xs = Inr db2" and "has_vertex (vertex_index db) v"
  then show "master_of db2 v = master_of db v"
    using grows_run unfolding grows_def by blast
qed

theorem mirror_invariant_witness:
  "add_edge hash_id hash_sum (new_database [''name''] [''weight''] 4) 1 2 None = Inr db_edge12
   \<and> edge (shards db_edge12 ! (hash_sum (1, 2) mod num_shards (new_database [''name''] [''weight''] 4)))
       = edge (shards (new_database [''name''] [''weight''] 4)
                 ! (hash_sum (1, 2) mod num_shards (new_database [''name''] [''weight''] 4))) @ [(1, 2)]
   \<and> hash_sum (1, 2) mod num_shards (new_database [''name''] [''weight''] 4) \<noteq> master_of db_edge12 1
   \<and> hash_sum (1, 2) mod num_shards (new_database [''name''] [''weight''] 4) \<in> set (mirrors_of db_edge12 1)
   \<and> hash_sum (1, 2) mod num_shards (new_database [''name''] [''weight''] 4) \<noteq> master_of db_edge12 2
   \<and> hash_sum (1, 2) mod num_shards (new_database [''name''] [''weight''] 4) \<in> set (mirrors_of db_edge12 2)
   \<and> run hash_id hash_sum db_edge12 [AddEdge 2 3 None, AddEdge 3 1 None] = Inr db_triangle
   \<and> has_vertex (vertex_index db_edge12) 1
   \<and> set (mirrors_of db_edge12 1) \<subseteq> set (mirrors_of db_triangle 1)
   \<and> has_vertex (vertex_index db_triangle) 1
   \<and> master_of db_triangle 1 = master_of db_edge12 1"
proof -
  have a: "add_edge hash_id hash_sum (new_database [''name''] [''weight''] 4) 1 2 None
             = Inr db_edge12"
    by (simp add: db_edge12_def eval_defs)
  have r: "run hash_id hash_sum db_edge12 [AddEdge 2 3 None, AddEdge 3 1 None] = Inr db_triangle"
    by (simp add: db_triangle_def db_edge12_def eval_defs)
  have h: "hash_sum (1, 2) mod num_shards (new_database [''name''] [''weight''] 4)
             \<noteq> master_of db_edge12 1"
    "hash_sum (1, 2) mod num_shards (new_database [''name''] [''weight''] 4)
             \<noteq> master_of db_edge12 2"
    "has_vertex (vertex_index db_edge12) 1"
    by (simp_all add: db_edge12_def eval_defs)
  from a r h
    mirror_invariant[of hash_id hash_sum "new_database [''name''] [''weight''] 4" 1 2 None
      db_edge12 "[]" "new_database [''name''] [''weight''] 4" 1]
    mirror_invariant[of hash_id hash_sum db_edge12 1 2 None
      db_edge12 "[AddEdge 2 3 None, AddEdge 3 1 None]" db_triangle 1]
  show ?thesis by blast
qed

lemma vertices_okD:
  "vertices_ok vid_hash db \<Longrightarrow> has_vertex (vertex_index db) v \<Longrightarrow>
   vid2master db v = Some (vid_hash v mod num_shards db)"
  by (auto simp: vertices_ok_def has_vertex_def)

text \<open>
  C4. In every state reached from a new database with \<open>n > 0\<close> shards,
  \<^verbatim>\<open>add_edge(s, t)\<close> returns; the edge and its row are appended to shard
  \<open>edge_hash (s, t) mod n\<close> and to no other shard, \<^verbatim>\<open>num_edges()\<close> grows by exactly
  one, and afterwards \<open>s\<close> and \<open>t\<close> are both indexed vertices whose master shard is
  \<open>vid_hash v mod n\<close>.
\<close>

theorem add_edge_spec:
  assumes "0 < n" and "run vid_hash edge_hash (new_database vfields efields n) xs = Inr db"
  shows "\<exists>db1. add_edge vid_hash edge_hash db s t data = Inr db1
      \<and> num_shards db = n
      \<and> edge (shards db1 ! (edge_hash (s, t) mod n))
          = edge (shards db ! (edge_hash (s, t) mod n)) @ [(s, t)]
      \<and> edge_data (shards db1 ! (edge_hash (s, t) mod n))
          = edge_data (shards db ! (edge_hash (s, t) mod n)) @
              [(case data of None \<Rightarrow> new_graph_row (edge_fields db) | Some r \<Rightarrow> r)
                 \<lparr>is_vertex := False\<rparr>]
      \<and> (\<forall>k. k \<noteq> edge_hash (s, t) mod n \<longrightarrow> edge (shards db1 ! k) = edge (shards db ! k))
      \<and> num_edges db1 = num_edges db + 1
      \<and> has_vertex (vertex_index db1) s \<and> has_vertex (vertex_index db1) t
      \<and> vid2master db1 s = Some (vid_hash s mod n) \<and> vid2master db1 t = Some (vid_hash t mod n)
      \<and> master_of db1 s = vid_hash s mod n \<and> master_of db1 t = vid_hash t mod n"
proof -
  have inv: "db_inv vid_hash db" using assms by (rule db_inv_reachable)
  have n: "num_shards db = n"
    using num_shards_run[OF assms(2)] by (simp add: num_shards_def new_database_def)
  obtain db1 where a: "add_edge vid_hash edge_hash db s t data = Inr db1"
    using add_edge_total[OF inv] by blast
  have inv1: "vertices_ok vid_hash db1"
    using db_inv_add_edge[OF inv a] by (simp add: db_inv_def)
  have n1: "num_shards db1 = n" using add_edge_stored(4)[OF a] n by simp
  have hs: "has_vertex (vertex_index db1) s" and ht: "has_vertex (vertex_index db1) t"
    using dom_add_edge[OF a] by (auto simp: has_vertex_def)
  have ms: "vid2master db1 s = Some (vid_hash s mod n)"
    using vertices_okD[OF inv1 hs] n1 by simp
  have mt: "vid2master db1 t = Some (vid_hash t mod n)"
    using vertices_okD[OF inv1 ht] n1 by simp
  have e1: "edge (shards db1 ! (edge_hash (s, t) mod n))
          = edge (shards db ! (edge_hash (s, t) mod n)) @ [(s, t)]"
    using add_edge_stored(1)[OF a, of "edge_hash (s, t) mod n"] n by simp
  have e2: "\<forall>k. k \<noteq> edge_hash (s, t) mod n \<longrightarrow> edge (shards db1 ! k) = edge (shards db ! k)"
    using add_edge_stored(1)[OF a] n by simp
  have e3: "edge_data (shards db1 ! (edge_hash (s, t) mod n))
          = edge_data (shards db ! (edge_hash (s, t) mod n)) @
              [(case data of None \<Rightarrow> new_graph_row (edge_fields db) | Some r \<Rightarrow> r)
                 \<lparr>is_vertex := False\<rparr>]"
    using add_edge_row_stored[OF a] n by simp
  have c: "num_edges db1 = num_edges db + 1" using add_edge_stored(3)[OF a] .
  show ?thesis
    using a n e1 e2 e3 c hs ht ms mt by (simp add: master_of_eq)
qed

theorem add_edge_spec_witness:
  "(0::nat) < 4
   \<and> run hash_id hash_sum (new_database [''name''] [''weight''] 4) [AddEdge 1 2 None]
        = Inr db_edge12
   \<and> (\<exists>db1. add_edge hash_id hash_sum db_edge12 2 3 None = Inr db1
        \<and> edge (shards db1 ! (hash_sum (2, 3) mod 4))
            = edge (shards db_edge12 ! (hash_sum (2, 3) mod 4)) @ [(2, 3)]
        \<and> num_edges db1 = num_edges db_edge12 + 1
        \<and> has_vertex (vertex_index db1) 2 \<and> has_vertex (vertex_index db1) 3
        \<and> master_of db1 2 = hash_id 2 mod 4 \<and> master_of db1 3 = hash_id 3 mod 4)"
proof -
  have n: "(0::nat) < 4" by simp
  have r: "run hash_id hash_sum (new_database [''name''] [''weight''] 4) [AddEdge 1 2 None]
        = Inr db_edge12"
    by (simp add: db_edge12_def eval_defs)
  from add_edge_spec[OF n r, of 2 3 None] n r show ?thesis by blast
qed

section \<open>get_vertex and the shard list of a handle\<close>

lemma get_vertex_Some:
  assumes "vertex_index db v = Some i" and "i < length (vertex_store db)"
  shows "fst (get_vertex db v) =
     Some \<lparr>vid = v, vdata = vertex_store db ! i, master = master_of db v,
           mirrors = mirrors_of db v\<rparr>"
  using assms
  by (simp add: get_vertex_def get_index_def master_of_def get_master_def mirrors_of_def
      split: prod.splits)

lemma get_vertex_None:
  assumes "vertices_ok vid_hash db"
  shows "fst (get_vertex db v) = None \<longleftrightarrow> \<not> has_vertex (vertex_index db) v"
proof (cases "vertex_index db v")
  case None
  then show ?thesis by (simp add: get_vertex_def get_index_def has_vertex_def)
next
  case (Some i)
  then have "i < length (vertex_store db)" using assms unfolding vertices_ok_def by blast
  from get_vertex_Some[OF Some this] Some show ?thesis by (simp add: has_vertex_def)
qed

lemma get_vertex_handle:
  assumes "fst (get_vertex db v) = Some h"
  shows "vid h = v \<and> master h = master_of db v \<and> mirrors h = mirrors_of db v
       \<and> (\<exists>i. vertex_index db v = Some i \<and> i < length (vertex_store db)
               \<and> vdata h = vertex_store db ! i)"
proof -
  from assms obtain i where i: "vertex_index db v = Some i" "i < length (vertex_store db)"
    by (auto simp: get_vertex_def get_index_def split: option.splits if_splits)
  from get_vertex_Some[OF i] assms show ?thesis using i by auto
qed

text \<open>
  C7. In every state reached from a new database with \<open>n > 0\<close> shards,
  \<^verbatim>\<open>get_vertex(vid)\<close> returns the absent result exactly when no call of the sequence
  asked to add \<open>vid\<close> (by \<^verbatim>\<open>add_vertex\<close> or as an endpoint of \<^verbatim>\<open>add_edge\<close>); otherwise
  it returns a handle for \<open>vid\<close> whose master is \<open>vid_hash vid mod n\<close> and whose row
  pointer names the slot of \<open>vid\<close> in the vertex rows of that master shard.
\<close>

theorem get_vertex_spec:
  assumes "0 < n" and "run vid_hash edge_hash (new_database vfields efields n) xs = Inr db"
  shows "(fst (get_vertex db v) = None \<longleftrightarrow> v \<notin> added_vids xs)
     \<and> (v \<in> added_vids xs \<longrightarrow>
          (\<exists>h. fst (get_vertex db v) = Some h
             \<and> vid h = v
             \<and> master h = vid_hash v mod n
             \<and> master h = master_of db v
             \<and> mirrors h = mirrors_of db v
             \<and> fst (vdata h) = master h
             \<and> master h < length (shards db)
             \<and> snd (vdata h) < length (vertex_data (shards db ! master h))
             \<and> vertex (shards db ! master h) ! snd (vdata h) = v
             \<and> vertex_row db (vdata h) = Some (vertex_data (shards db ! master h) ! snd (vdata h))))"
proof -
  have inv: "db_inv vid_hash db" using assms by (rule db_inv_reachable)
  then have vo: "vertices_ok vid_hash db" and so: "shards_ok db" by (simp_all add: db_inv_def)
  have n: "num_shards db = n"
    using num_shards_run[OF assms(2)] by (simp add: num_shards_def new_database_def)
  have d: "dom (vertex_index db) = added_vids xs"
    using dom_run[OF assms(2)] by (simp add: new_database_def)
  then have hv: "has_vertex (vertex_index db) v \<longleftrightarrow> v \<in> added_vids xs"
    by (auto simp: has_vertex_def)
  have 1: "fst (get_vertex db v) = None \<longleftrightarrow> v \<notin> added_vids xs"
    using get_vertex_None[OF vo] hv by simp
  have 2: "\<exists>h. fst (get_vertex db v) = Some h
             \<and> vid h = v
             \<and> master h = vid_hash v mod n
             \<and> master h = master_of db v
             \<and> mirrors h = mirrors_of db v
             \<and> fst (vdata h) = master h
             \<and> master h < length (shards db)
             \<and> snd (vdata h) < length (vertex_data (shards db ! master h))
             \<and> vertex (shards db ! master h) ! snd (vdata h) = v
             \<and> vertex_row db (vdata h) = Some (vertex_data (shards db ! master h) ! snd (vdata h))"
    if "v \<in> added_vids xs"
  proof -
    from that hv obtain i where i: "vertex_index db v = Some i"
      by (auto simp: has_vertex_def)
    let ?m = "vid_hash v mod n"
    from vo i n have f: "i < length (vertex_store db)"
        "vid2master db v = Some ?m"
        "fst (vertex_store db ! i) = ?m"
        "snd (vertex_store db ! i) < length (vertex (shards db ! ?m))"
        "vertex (shards db ! ?m) ! snd (vertex_store db ! i) = v"
      unfolding vertices_ok_def by auto
    have m: "?m < length (shards db)" using so n assms(1) by (simp add: shards_ok_def)
    have l: "length (vertex_data (shards db ! ?m)) = length (vertex (shards db ! ?m))"
      using so n assms(1) by (simp add: shards_ok_def)
    have mo: "master_of db v = ?m" using f(2) by (simp add: master_of_eq)
    have vr: "vertex_row db (vertex_store db ! i)
        = Some (vertex_data (shards db ! ?m) ! snd (vertex_store db ! i))"
      using f(3,4) m l by (cases "vertex_store db ! i") (simp add: vertex_row_def)
    show ?thesis
      using get_vertex_Some[OF i f(1)] f m l mo vr by simp
  qed
  show ?thesis using 1 2 by blast
qed

theorem get_vertex_spec_witness:
  "(0::nat) < 4
   \<and> run hash_id hash_sum (new_database [''name''] [''weight''] 4) [AddEdge 1 2 None]
        = Inr db_edge12
   \<and> 2 \<in> added_vids [AddEdge 1 2 None]
   \<and> 5 \<notin> added_vids [AddEdge 1 2 None]
   \<and> fst (get_vertex db_edge12 5) = None
   \<and> (\<exists>h. fst (get_vertex db_edge12 2) = Some h \<and> vid h = 2 \<and> master h = hash_id 2 mod 4
         \<and> vertex (shards db_edge12 ! master h) ! snd (vdata h) = 2)"
proof -
  have n: "(0::nat) < 4" by simp
  have r: "run hash_id hash_sum (new_database [''name''] [''weight''] 4) [AddEdge 1 2 None]
        = Inr db_edge12"
    by (simp add: db_edge12_def eval_defs)
  have a: "2 \<in> added_vids [AddEdge 1 2 None]" "5 \<notin> added_vids [AddEdge 1 2 None]"
    by (simp_all add: added_vids_def)
  from get_vertex_spec[OF n r, of 2] get_vertex_spec[OF n r, of 5] n r a
  show ?thesis by blast
qed

text \<open>
  C10. For every vertex handle \<^verbatim>\<open>get_shard_list()\<close> is the list of the mirror shards,
  and its length is \<^verbatim>\<open>get_num_shards()\<close> minus one. For a handle that
  \<^verbatim>\<open>get_vertex\<close> returns in a state reached from a new database, the list is the
  mirror set of the vertex, it has no duplicates and it does not contain the master
  shard.
\<close>

theorem get_shard_list_spec:
  "length (get_shard_list h) = get_num_shards h - 1
   \<and> get_num_shards h = length (mirrors h) + 1
   \<and> get_shard_list h = mirrors h
   \<and> (0 < n \<and> run vid_hash edge_hash (new_database vfields efields n) xs = Inr db
        \<and> fst (get_vertex db v) = Some h \<longrightarrow>
          get_shard_list h = mirrors_of db v
          \<and> master_shard h = master_of db v
          \<and> master_shard h \<notin> set (get_shard_list h)
          \<and> distinct (get_shard_list h))"
proof -
  have 1: "length (get_shard_list h) = get_num_shards h - 1
   \<and> get_num_shards h = length (mirrors h) + 1 \<and> get_shard_list h = mirrors h"
    by (simp add: get_shard_list_def get_num_shards_def)
  have 2: "get_shard_list h = mirrors_of db v
          \<and> master_shard h = master_of db v
          \<and> master_shard h \<notin> set (get_shard_list h)
          \<and> distinct (get_shard_list h)"
    if a: "0 < n \<and> run vid_hash edge_hash (new_database vfields efields n) xs = Inr db
        \<and> fst (get_vertex db v) = Some h"
  proof -
    have "db_inv vid_hash db" using a db_inv_reachable by blast
    then have mo: "mirrors_ok db" by (simp add: db_inv_def)
    have g: "master h = master_of db v" "mirrors h = mirrors_of db v"
      using get_vertex_handle[of db v h] a by simp_all
    have "distinct (mirrors_of db v)" "\<forall>k \<in> set (mirrors_of db v). k \<noteq> master_of db v"
      using mo unfolding mirrors_ok_def by blast+
    then show ?thesis
      using g by (auto simp: get_shard_list_def master_shard_def)
  qed
  show ?thesis using 1 2 by blast
qed

theorem get_shard_list_spec_witness:
  "(0::nat) < 4
   \<and> run hash_id hash_sum (new_database [''name''] [''weight''] 4) [AddEdge 1 2 None]
        = Inr db_edge12
   \<and> fst (get_vertex db_edge12 2) = Some \<lparr>vid = 2, vdata = (2, 0), master = 2, mirrors = [3]\<rparr>
   \<and> get_shard_list \<lparr>vid = 2, vdata = (2, 0), master = 2, mirrors = [3]\<rparr> = mirrors_of db_edge12 2
   \<and> master_shard \<lparr>vid = 2, vdata = (2, 0), master = 2, mirrors = [3]\<rparr>
        \<notin> set (get_shard_list \<lparr>vid = 2, vdata = (2, 0), master = 2, mirrors = [3]\<rparr>)
   \<and> length (get_shard_list \<lparr>vid = 2, vdata = (2, 0), master = 2, mirrors = [3]\<rparr>)
        = get_num_shards \<lparr>vid = 2, vdata = (2, 0), master = 2, mirrors = [3]\<rparr> - 1"
proof -
  have n: "(0::nat) < 4" by simp
  have r: "run hash_id hash_sum (new_database [''name''] [''weight''] 4) [AddEdge 1 2 None]
        = Inr db_edge12"
    by (simp add: db_edge12_def eval_defs)
  have g: "fst (get_vertex db_edge12 2)
      = Some \<lparr>vid = 2, vdata = (2, 0), master = 2, mirrors = [3]\<rparr>"
    by (simp add: db_edge12_def eval_defs)
  from get_shard_list_spec[of "\<lparr>vid = 2, vdata = (2, 0), master = 2, mirrors = [3]\<rparr>"
      4 hash_id hash_sum "[''name'']" "[''weight'']" "[AddEdge 1 2 None]" db_edge12 2] n r g
  show ?thesis by blast
qed

section \<open>get_shard_contents_adj_to\<close>

lemma get_shard_contents_result:
  assumes "get_shard_contents_adj_to db sid a = Inr (d, db1)"
  shows "same_maps db db1"
    and "d = append_copies (shards db) a (adj_positions db sid a (vertex (shards db ! sid)))
               (new_graph_shard\<lparr>shard_id := a\<rparr>)"
    and "positions_ok (shards db) a (adj_positions db sid a (vertex (shards db ! sid)))"
  using assms
  by (auto simp: get_shard_contents_adj_to_def dest: adj_loop_result split: if_splits)

lemma append_copies_new:
  "shard_id (append_copies shs a ps (new_graph_shard\<lparr>shard_id := a\<rparr>)) = a"
  "vertex (append_copies shs a ps (new_graph_shard\<lparr>shard_id := a\<rparr>)) = []"
  "vertex_data (append_copies shs a ps (new_graph_shard\<lparr>shard_id := a\<rparr>)) = []"
  "edgeid (append_copies shs a ps (new_graph_shard\<lparr>shard_id := a\<rparr>)) = ps"
  "edge (append_copies shs a ps (new_graph_shard\<lparr>shard_id := a\<rparr>))
     = map (\<lambda>p. edge (shs ! a) ! p) ps"
  "edge_data (append_copies shs a ps (new_graph_shard\<lparr>shard_id := a\<rparr>))
     = map (\<lambda>p. edge_data (shs ! a) ! p) ps"
  by (simp_all add: append_copies_def new_graph_shard_def row_deepcopy_id)

lemma adj_positions_eq:
  "adj_positions db sid a vs =
     concat (map (\<lambda>v. in_edges (edge_index db ! a) v @ out_edges (edge_index db ! a) v)
               (filter (\<lambda>v. sid = a \<or> a \<in> set (mirrors_of db v)) vs))"
proof -
  have 1: "adjacency db a = (\<lambda>v. in_edges (edge_index db ! a) v @ out_edges (edge_index db ! a) v)"
    by (rule ext) (simp add: adjacency_def)
  have 2: "passes db sid a = (\<lambda>v. sid = a \<or> a \<in> set (mirrors_of db v))"
    by (rule ext) (simp add: passes_def)
  show ?thesis unfolding adj_positions_def 1 2 ..
qed

lemma set_adj_positions:
  "set (adj_positions db sid a vs) =
     {p. \<exists>v \<in> set vs. (sid = a \<or> a \<in> set (mirrors_of db v))
            \<and> (p \<in> set (in_edges (edge_index db ! a) v) \<or> p \<in> set (out_edges (edge_index db ! a) v))}"
  unfolding adj_positions_eq by auto

lemma get_shard_contents_total:
  assumes "db_inv vid_hash db" and "sid < num_shards db" and "a < num_shards db"
  shows "\<exists>d db1. get_shard_contents_adj_to db sid a = Inr (d, db1)"
proof -
  have so: "shards_ok db" using assms(1) by (simp add: db_inv_def)
  then have l: "length (shards db) = num_shards db" "length (edge_index db) = num_shards db"
    by (simp_all add: shards_ok_def)
  have p: "\<forall>v. positions_ok (shards db) a (adjacency db a v)"
    using positions_ok_inv[OF so assms(3)] by blast
  have e: "a < length (edge_index db)" using l assms(3) by simp
  show ?thesis
    using adj_loop_total[OF e p] l assms(2) by (simp add: get_shard_contents_adj_to_def)
qed

text \<open>
  C1. When \<^verbatim>\<open>get_shard_contents_adj_to(shard_id, adjacent_to)\<close> returns, the new
  shard has id \<open>adjacent_to\<close> and no vertices; its edge, row and \<^verbatim>\<open>edgeid\<close>
  sequences have one length; \<^verbatim>\<open>edgeid\<close> lists, vertex by vertex in the order of the
  vertex list of \<open>shard_id\<close>, the incoming and then the outgoing positions that the edge
  index of \<open>adjacent_to\<close> has for each vertex passing the filter
  (\<open>shard_id = adjacent_to\<close> or \<open>adjacent_to\<close> in the vertex's mirror set), so its
  positions are exactly the positions of the edges incident to such a vertex; entry
  \<open>i\<close> of the new shard is a copy of the edge and row at position \<open>edgeid ! i\<close> of
  shard \<open>adjacent_to\<close>. For \<open>shard_id = adjacent_to\<close> every vertex passes. In every
  state reached from a new database the call returns for all shard ids in range.
\<close>

theorem get_shard_contents_adj_to_spec:
  "(get_shard_contents_adj_to db sid a = Inr (d, db1) \<longrightarrow>
      shard_id d = a \<and> vertex d = [] \<and> vertex_data d = []
      \<and> length (edgeid d) = length (edge d) \<and> length (edge_data d) = length (edge d)
      \<and> edgeid d =
          concat (map (\<lambda>v. in_edges (edge_index db ! a) v @ out_edges (edge_index db ! a) v)
                    (filter (\<lambda>v. sid = a \<or> a \<in> set (mirrors_of db v))
                       (vertex (shards db ! sid))))
      \<and> set (edgeid d) =
          {p. \<exists>v \<in> set (vertex (shards db ! sid)).
                (sid = a \<or> a \<in> set (mirrors_of db v))
                \<and> (p \<in> set (in_edges (edge_index db ! a) v)
                     \<or> p \<in> set (out_edges (edge_index db ! a) v))}
      \<and> (\<forall>i < length (edgeid d).
            edgeid d ! i < length (edge (shards db ! a))
            \<and> edgeid d ! i < length (edge_data (shards db ! a))
            \<and> edge d ! i = edge (shards db ! a) ! (edgeid d ! i)
            \<and> edge_data d ! i = edge_data (shards db ! a) ! (edgeid d ! i))
      \<and> shards db1 = shards db \<and> edge_index db1 = edge_index db
      \<and> (\<forall>v. mirrors_of db1 v = mirrors_of db v))
   \<and> (get_shard_contents_adj_to db sid sid = Inr (d, db1) \<longrightarrow>
        edgeid d =
          concat (map (\<lambda>v. in_edges (edge_index db ! sid) v @ out_edges (edge_index db ! sid) v)
                    (vertex (shards db ! sid))))
   \<and> (0 < n \<and> run vid_hash edge_hash (new_database vfields efields n) xs = Inr db
        \<and> sid < n \<and> a < n \<longrightarrow>
        (\<exists>d db1. get_shard_contents_adj_to db sid a = Inr (d, db1)))"
proof (intro conjI impI)
  assume g: "get_shard_contents_adj_to db sid sid = Inr (d, db1)"
  show "edgeid d =
          concat (map (\<lambda>v. in_edges (edge_index db ! sid) v @ out_edges (edge_index db ! sid) v)
                    (vertex (shards db ! sid)))"
    unfolding get_shard_contents_result(2)[OF g] append_copies_new adj_positions_eq by simp
next
  assume a: "0 < n \<and> run vid_hash edge_hash (new_database vfields efields n) xs = Inr db
        \<and> sid < n \<and> a < n"
  then have inv: "db_inv vid_hash db" using db_inv_reachable by blast
  have n: "num_shards db = n"
    using a num_shards_run[of vid_hash edge_hash "new_database vfields efields n" xs db]
    by (simp add: num_shards_def new_database_def)
  show "\<exists>d db1. get_shard_contents_adj_to db sid a = Inr (d, db1)"
    using get_shard_contents_total[OF inv] a n by simp
next
  assume g: "get_shard_contents_adj_to db sid a = Inr (d, db1)"
  note r = get_shard_contents_result[OF g]
  let ?ps = "adj_positions db sid a (vertex (shards db ! sid))"
  show "shard_id d = a" "vertex d = []" "vertex_data d = []"
    "length (edgeid d) = length (edge d)" "length (edge_data d) = length (edge d)"
    unfolding r(2) append_copies_new by simp_all
  show "edgeid d =
          concat (map (\<lambda>v. in_edges (edge_index db ! a) v @ out_edges (edge_index db ! a) v)
                    (filter (\<lambda>v. sid = a \<or> a \<in> set (mirrors_of db v))
                       (vertex (shards db ! sid))))"
    unfolding r(2) append_copies_new adj_positions_eq ..
  show "set (edgeid d) =
          {p. \<exists>v \<in> set (vertex (shards db ! sid)).
                (sid = a \<or> a \<in> set (mirrors_of db v))
                \<and> (p \<in> set (in_edges (edge_index db ! a) v)
                     \<or> p \<in> set (out_edges (edge_index db ! a) v))}"
    unfolding r(2) append_copies_new set_adj_positions ..
  show "\<forall>i < length (edgeid d).
            edgeid d ! i < length (edge (shards db ! a))
            \<and> edgeid d ! i < length (edge_data (shards db ! a))
            \<and> edge d ! i = edge (shards db ! a) ! (edgeid d ! i)
            \<and> edge_data d ! i = edge_data (shards db ! a) ! (edgeid d ! i)"
    unfolding r(2) append_copies_new using r(3) by (simp add: positions_ok_def)
  show "shards db1 = shards db" "edge_index db1 = edge_index db"
    "\<forall>v. mirrors_of db1 v = mirrors_of db v"
    using r(1) by (simp_all add: same_maps_def)
qed

lemma run_db_loop:
  "run hash_id hash_sum (new_database [''name''] [''weight''] 4)
         [AddEdge 1 2 None, AddEdge 2 3 None, AddEdge 3 1 None, AddEdge 1 4 None,
          AddEdge 4 4 None] = Inr db_loop"
  by (simp add: db_loop_def db_triangle_def db_edge12_def eval_defs)

theorem get_shard_contents_adj_to_spec_witness:
  "(0::nat) < 4
   \<and> run hash_id hash_sum (new_database [''name''] [''weight''] 4)
         [AddEdge 1 2 None, AddEdge 2 3 None, AddEdge 3 1 None, AddEdge 1 4 None,
          AddEdge 4 4 None] = Inr db_loop
   \<and> (1::nat) < 4 \<and> (3::nat) < 4
   \<and> (\<exists>d db1. get_shard_contents_adj_to db_loop 1 3 = Inr (d, db1)
         \<and> shard_id d = 3 \<and> vertex d = [] \<and> edgeid d = [0]
         \<and> edge d ! 0 = edge (shards db_loop ! 3) ! 0
         \<and> edge_data d ! 0 = edge_data (shards db_loop ! 3) ! 0)
   \<and> (\<exists>d db1. get_shard_contents_adj_to db_loop 0 0 = Inr (d, db1) \<and> edgeid d = [1, 1])"
proof -
  have n: "(0::nat) < 4" "(1::nat) < 4" "(3::nat) < 4" by simp_all
  note r = run_db_loop
  obtain d db1 where g: "get_shard_contents_adj_to db_loop 1 3 = Inr (d, db1)"
    using get_shard_contents_adj_to_spec[of db_loop 1 3 new_graph_shard db_loop 4 hash_id hash_sum
        "[''name'']" "[''weight'']" _ ] n r by blast
  have e: "concat (map (\<lambda>v. in_edges (edge_index db_loop ! 3) v @ out_edges (edge_index db_loop ! 3) v)
                    (filter (\<lambda>v. (1::nat) = 3 \<or> 3 \<in> set (mirrors_of db_loop v))
                       (vertex (shards db_loop ! 1)))) = [0]"
    by (simp add: db_loop_def db_triangle_def db_edge12_def eval_defs)
  have p1: "shard_id d = 3 \<and> vertex d = [] \<and> edgeid d = [0]
         \<and> edge d ! 0 = edge (shards db_loop ! 3) ! 0
         \<and> edge_data d ! 0 = edge_data (shards db_loop ! 3) ! 0"
    using get_shard_contents_adj_to_spec[of db_loop 1 3 d db1] g e by simp
  obtain d0 db0 where g0: "get_shard_contents_adj_to db_loop 0 0 = Inr (d0, db0)"
    using get_shard_contents_adj_to_spec[of db_loop 0 0 new_graph_shard db_loop 4 hash_id hash_sum
        "[''name'']" "[''weight'']" _ ] n r by blast
  have e0: "concat (map (\<lambda>v. in_edges (edge_index db_loop ! 0) v @ out_edges (edge_index db_loop ! 0) v)
                    (vertex (shards db_loop ! 0))) = [1, 1]"
    by (simp add: db_loop_def db_triangle_def db_edge12_def eval_defs)
  have p0: "edgeid d0 = [1, 1]"
    using get_shard_contents_adj_to_spec[of db_loop 0 0 d0 db0] g0 e0 by simp
  show ?thesis using n r g p1 g0 p0 by blast
qed

section \<open>commit_shard on a derived shard\<close>

lemma commit_edge_row_unmodified:
  assumes "pos_valid db sh i" and "unmodified local"
  shows "commit_edge_row db (shard_id sh) (origin_pos sh i) local = Inr (local, db)"
proof -
  have a: "\<not> length (shards db) \<le> shard_id sh"
    "\<not> length (edge_data (shards db ! shard_id sh)) \<le> origin_pos sh i"
    using assms(1) by (simp_all add: pos_valid_def not_le)
  have c: "commit_fields 0 (row_values local)
             (row_values (edge_data (shards db ! shard_id sh) ! origin_pos sh i))
           = Inr (row_values local, row_values (edge_data (shards db ! shard_id sh) ! origin_pos sh i))"
    using assms(2) by (simp add: unmodified_def commit_fields_unmodified)
  show ?thesis
    using a by (simp add: commit_edge_row_def Let_def c)
qed

lemma commit_edge_row_single:
  assumes "pos_valid db sh i" and "row_values local = fpre @ val # fpost"
    and "\<forall>x \<in> set fpre. \<not> get_modified x" and "\<forall>x \<in> set fpost. \<not> get_modified x"
    and "get_modified val"
    and "length fpre < length (row_values (edge_data (shards db ! shard_id sh) ! origin_pos sh i))"
  shows "commit_edge_row db (shard_id sh) (origin_pos sh i) local =
           Inr (local\<lparr>row_values := fpre @ post_commit_state val # fpost\<rparr>,
                store_edge_field db (shard_id sh) (origin_pos sh i) (length fpre)
                  (post_commit_state val))"
proof -
  have a: "\<not> length (shards db) \<le> shard_id sh"
    "\<not> length (edge_data (shards db ! shard_id sh)) \<le> origin_pos sh i"
    using assms(1) by (simp_all add: pos_valid_def not_le)
  have c: "commit_fields 0 (row_values local)
             (row_values (edge_data (shards db ! shard_id sh) ! origin_pos sh i))
           = Inr (fpre @ post_commit_state val # fpost,
                  (row_values (edge_data (shards db ! shard_id sh) ! origin_pos sh i))
                    [length fpre := post_commit_state val])"
    unfolding assms(2) using commit_fields_single[OF assms(3,4,5), of 0] assms(6) by simp
  show ?thesis
    using a by (simp add: commit_edge_row_def Let_def c store_edge_field_def)
qed

lemma pos_valid_store_edge_field:
  "pos_valid (store_edge_field db ident pos j val) sh m = pos_valid db sh m"
  by (simp add: pos_valid_def store_edge_field_def nth_list_update_full)

lemma commit_edges_unmodified:
  assumes "\<forall>r \<in> set rows. unmodified r" and "\<forall>m < length rows. pos_valid db sh (i + m)"
  shows "commit_edges db sh i rows = Inr (rows, db)"
  using assms
proof (induction rows arbitrary: i)
  case Nil
  show ?case by simp
next
  case (Cons local rest)
  have p: "pos_valid db sh i" using Cons.prems(2) by force
  then have g: "\<not> (0 < length (edgeid sh) \<and> length (edgeid sh) \<le> i)"
    by (auto simp: pos_valid_def)
  have u: "unmodified local" using Cons.prems(1) by simp
  have "\<forall>m < length rest. pos_valid db sh (Suc i + m)"
    using Cons.prems(2) by fastforce
  then have r: "commit_edges db sh (Suc i) rest = Inr (rest, db)"
    using Cons.prems(1) by (intro Cons.IH) simp_all
  show ?case
    using g by (simp add: commit_edges_Cons commit_edge_row_unmodified[OF p u] r
        del: commit_edges.simps)
qed

lemma commit_edges_single:
  assumes "\<forall>r \<in> set pre. unmodified r" and "\<forall>r \<in> set post. unmodified r"
    and "\<forall>m < length (pre @ row # post). pos_valid db sh (i + m)"
    and "row_values row = fpre @ val # fpost"
    and "\<forall>x \<in> set fpre. \<not> get_modified x" and "\<forall>x \<in> set fpost. \<not> get_modified x"
    and "get_modified val"
    and "length fpre < length (row_values (edge_data (shards db ! shard_id sh)
            ! origin_pos sh (i + length pre)))"
  shows "commit_edges db sh i (pre @ row # post) =
           Inr (pre @ row\<lparr>row_values := fpre @ post_commit_state val # fpost\<rparr> # post,
                store_edge_field db (shard_id sh) (origin_pos sh (i + length pre)) (length fpre)
                  (post_commit_state val))"
  using assms(1,3,8)
proof (induction pre arbitrary: i)
  case Nil
  have p: "pos_valid db sh i" using Nil.prems(2) by force
  then have g: "\<not> (0 < length (edgeid sh) \<and> length (edgeid sh) \<le> i)"
    by (auto simp: pos_valid_def)
  let ?db1 = "store_edge_field db (shard_id sh) (origin_pos sh i) (length fpre)
                  (post_commit_state val)"
  have c: "commit_edge_row db (shard_id sh) (origin_pos sh i) row =
           Inr (row\<lparr>row_values := fpre @ post_commit_state val # fpost\<rparr>, ?db1)"
    using commit_edge_row_single[OF p assms(4,5,6,7)] Nil.prems(3) by simp
  have "\<forall>m < length post. pos_valid ?db1 sh (Suc i + m)"
    using Nil.prems(2) by (fastforce simp: pos_valid_store_edge_field)
  then have r: "commit_edges ?db1 sh (Suc i) post = Inr (post, ?db1)"
    using assms(2) by (intro commit_edges_unmodified) simp_all
  show ?case
    using g by (simp add: commit_edges_Cons c r del: commit_edges.simps)
next
  case (Cons local pre)
  have p: "pos_valid db sh i" using Cons.prems(2) by force
  then have g: "\<not> (0 < length (edgeid sh) \<and> length (edgeid sh) \<le> i)"
    by (auto simp: pos_valid_def)
  have u: "unmodified local" using Cons.prems(1) by simp
  have v: "\<forall>m < length (pre @ row # post). pos_valid db sh (Suc i + m)"
    using Cons.prems(2) by fastforce
  have r: "commit_edges db sh (Suc i) (pre @ row # post) =
           Inr (pre @ row\<lparr>row_values := fpre @ post_commit_state val # fpost\<rparr> # post,
                store_edge_field db (shard_id sh) (origin_pos sh (Suc i + length pre)) (length fpre)
                  (post_commit_state val))"
    using Cons.prems(1,3) v by (intro Cons.IH) simp_all
  show ?case
    using g by (simp add: commit_edges_Cons commit_edge_row_unmodified[OF p u] r
        del: commit_edges.simps)
qed

lemma store_edge_field_props:
  assumes "a < length (shards db)" and "p < length (edge_data (shards db ! a))"
    and "j < length (row_values (edge_data (shards db ! a) ! p))"
  shows "row_values (edge_data (shards (store_edge_field db a p j val) ! a) ! p) ! j = val"
    and "\<forall>j'. j' \<noteq> j \<longrightarrow>
           row_values (edge_data (shards (store_edge_field db a p j val) ! a) ! p) ! j'
             = row_values (edge_data (shards db ! a) ! p) ! j'"
    and "is_vertex (edge_data (shards (store_edge_field db a p j val) ! a) ! p)
           = is_vertex (edge_data (shards db ! a) ! p)"
    and "\<forall>p'. p' \<noteq> p \<longrightarrow>
           edge_data (shards (store_edge_field db a p j val) ! a) ! p'
             = edge_data (shards db ! a) ! p'"
    and "\<forall>k. k \<noteq> a \<longrightarrow> shards (store_edge_field db a p j val) ! k = shards db ! k"
    and "edge (shards (store_edge_field db a p j val) ! a) = edge (shards db ! a)"
    and "vertex (shards (store_edge_field db a p j val) ! a) = vertex (shards db ! a)"
    and "vertex_data (shards (store_edge_field db a p j val) ! a) = vertex_data (shards db ! a)"
    and "length (edge_data (shards (store_edge_field db a p j val) ! a))
           = length (edge_data (shards db ! a))"
  using assms by (simp_all add: store_edge_field_def nth_list_update_full)

lemma only_elsewhere:
  assumes "\<forall>i' j'. i' < length rows \<and> j' < length (row_values (rows ! i'))
                 \<and> get_modified (row_values (rows ! i') ! j') \<longrightarrow> i' = i \<and> j' = j"
    and "i' < length rows" and "j' < length (row_values (rows ! i'))"
    and "i' \<noteq> i \<or> j' \<noteq> j"
  shows "\<not> get_modified (row_values (rows ! i') ! j')"
  using assms by blast

lemma commit_shard_derived:
  assumes g: "get_shard_contents_adj_to db sid a = Inr (d, db1)"
    and len: "length rows = length (edge_data d)"
    and i: "i < length rows" and j: "j < length (row_values (rows ! i))"
    and shape: "length (row_values (rows ! i)) = length (row_values (edge_data d ! i))"
    and md: "get_modified (row_values (rows ! i) ! j)"
    and only: "\<forall>i' j'. i' < length rows \<and> j' < length (row_values (rows ! i'))
                 \<and> get_modified (row_values (rows ! i') ! j') \<longrightarrow> i' = i \<and> j' = j"
  shows "commit_shard db1 (d\<lparr>edge_data := rows\<rparr>) =
           Inr (store_edge_field db1 a (edgeid d ! i) j (post_commit_state (row_values (rows ! i) ! j)),
                d\<lparr>vertex_data := [],
                  edge_data := (take i rows @
                     (rows ! i)\<lparr>row_values := take j (row_values (rows ! i)) @
                        post_commit_state (row_values (rows ! i) ! j) #
                        drop (Suc j) (row_values (rows ! i))\<rparr> # drop (Suc i) rows) @ []\<rparr>)"
    and "a < length (shards db1)"
    and "edgeid d ! i < length (edge_data (shards db1 ! a))"
    and "j < length (row_values (edge_data (shards db1 ! a) ! (edgeid d ! i)))"
proof -
  let ?ps = "adj_positions db sid a (vertex (shards db ! sid))"
  let ?d1 = "d\<lparr>edge_data := rows\<rparr>"
  let ?val = "row_values (rows ! i) ! j"
  note r = get_shard_contents_result[OF g]
  have sh: "shards db1 = shards db" using r(1) by (simp add: same_maps_def)
  have f: "shard_id d = a" "vertex d = []" "vertex_data d = []" "edgeid d = ?ps"
    "edge d = map (\<lambda>p. edge (shards db ! a) ! p) ?ps"
    "edge_data d = map (\<lambda>p. edge_data (shards db ! a) ! p) ?ps"
    unfolding r(2) append_copies_new by simp_all
  have lp: "length ?ps = length rows" using len f(6) by simp
  have ok: "\<forall>m < length rows. a < length (shards db) \<and> ?ps ! m < length (edge_data (shards db ! a))"
    using r(3) lp unfolding positions_ok_def by (metis nth_mem)
  show a: "a < length (shards db1)" using ok i sh by simp
  show p: "edgeid d ! i < length (edge_data (shards db1 ! a))" using ok i sh f(4) by simp
  have "edge_data d ! i = edge_data (shards db ! a) ! (?ps ! i)"
    using f(6) i lp by simp
  then show jo: "j < length (row_values (edge_data (shards db1 ! a) ! (edgeid d ! i)))"
    using j shape sh f(4) by simp
  have pv: "\<forall>m < length (take i rows @ rows ! i # drop (Suc i) rows). pos_valid db1 ?d1 (0 + m)"
    using ok i lp sh f(1,4) by (simp add: pos_valid_def origin_pos_def id_take_nth_drop[symmetric])
  have rows: "rows = take i rows @ rows ! i # drop (Suc i) rows"
    using i by (rule id_take_nth_drop)
  have vals: "row_values (rows ! i) = take j (row_values (rows ! i)) @ ?val #
      drop (Suc j) (row_values (rows ! i))"
    using j by (rule id_take_nth_drop)
  have nr: "rows \<noteq> []" using i by auto
  have lj: "length (take j (row_values (rows ! i))) = j" using j by simp
  have li: "length (take i rows) = i" using i by simp
  have u1: "\<forall>r \<in> set (take i rows). unmodified r"
  proof
    fix r assume "r \<in> set (take i rows)"
    then obtain i' where i': "i' < i" "r = rows ! i'"
      using i by (auto simp: in_set_conv_nth)
    show "unmodified r"
      unfolding unmodified_def
    proof
      fix x assume "x \<in> set (row_values r)"
      then obtain j' where "j' < length (row_values r)" "x = row_values r ! j'"
        by (auto simp: in_set_conv_nth)
      then show "\<not> get_modified x"
        using only_elsewhere[OF only, of i' j'] i' i by simp
    qed
  qed
  have u2: "\<forall>r \<in> set (drop (Suc i) rows). unmodified r"
  proof
    fix r assume "r \<in> set (drop (Suc i) rows)"
    then obtain m where m: "m < length rows - Suc i" "r = rows ! (Suc i + m)"
      by (auto simp: in_set_conv_nth)
    show "unmodified r"
      unfolding unmodified_def
    proof
      fix x assume "x \<in> set (row_values r)"
      then obtain j' where "j' < length (row_values r)" "x = row_values r ! j'"
        by (auto simp: in_set_conv_nth)
      then show "\<not> get_modified x"
        using only_elsewhere[OF only, of "Suc i + m" j'] m by simp
    qed
  qed
  have v1: "\<forall>x \<in> set (take j (row_values (rows ! i))). \<not> get_modified x"
  proof
    fix x assume "x \<in> set (take j (row_values (rows ! i)))"
    then obtain j' where "j' < j" "x = row_values (rows ! i) ! j'"
      using j by (auto simp: in_set_conv_nth)
    then show "\<not> get_modified x"
      using only_elsewhere[OF only, of i j'] i j by simp
  qed
  have v2: "\<forall>x \<in> set (drop (Suc j) (row_values (rows ! i))). \<not> get_modified x"
  proof
    fix x assume "x \<in> set (drop (Suc j) (row_values (rows ! i)))"
    then obtain m where "m < length (row_values (rows ! i)) - Suc j"
      "x = row_values (rows ! i) ! (Suc j + m)"
      by (auto simp: in_set_conv_nth)
    then show "\<not> get_modified x"
      using only_elsewhere[OF only, of i "Suc j + m"] i by simp
  qed
  have jo': "length (take j (row_values (rows ! i)))
      < length (row_values (edge_data (shards db1 ! shard_id ?d1)
           ! origin_pos ?d1 (0 + length (take i rows))))"
    unfolding lj li using jo f(1,4) i lp nr by (simp add: origin_pos_def)
  have ce: "commit_edges db1 ?d1 0 (take i rows @ rows ! i # drop (Suc i) rows) =
      Inr (take i rows @ (rows ! i)\<lparr>row_values := take j (row_values (rows ! i)) @
              post_commit_state ?val # drop (Suc j) (row_values (rows ! i))\<rparr> # drop (Suc i) rows,
           store_edge_field db1 (shard_id ?d1) (origin_pos ?d1 (0 + length (take i rows)))
             (length (take j (row_values (rows ! i)))) (post_commit_state ?val))"
    by (rule commit_edges_single[OF u1 u2 pv vals v1 v2 md jo'])
  have op: "origin_pos ?d1 i = edgeid d ! i" using i lp f(4) nr by (simp add: origin_pos_def)
  have ce': "commit_edges db1 ?d1 0 rows =
      Inr (take i rows @ (rows ! i)\<lparr>row_values := take j (row_values (rows ! i)) @
              post_commit_state ?val # drop (Suc j) (row_values (rows ! i))\<rparr> # drop (Suc i) rows,
           store_edge_field db1 a (edgeid d ! i) j (post_commit_state ?val))"
    using ce unfolding rows[symmetric] li lj using op f(1) by simp
  have ne: "shard_num_edges ?d1 = length rows" "shard_num_vertices ?d1 = 0"
    using f lp by (simp_all add: shard_num_edges_def shard_num_vertices_def)
  show "commit_shard db1 ?d1 =
           Inr (store_edge_field db1 a (edgeid d ! i) j (post_commit_state ?val),
                d\<lparr>vertex_data := [],
                  edge_data := (take i rows @
                     (rows ! i)\<lparr>row_values := take j (row_values (rows ! i)) @
                        post_commit_state ?val #
                        drop (Suc j) (row_values (rows ! i))\<rparr> # drop (Suc i) rows) @ []\<rparr>)"
    unfolding commit_shard_def ne Let_def using ce' f(3) by simp
qed

text \<open>
  C2. Let \<open>d\<close> be the shard that \<^verbatim>\<open>get_shard_contents_adj_to(sid, a)\<close> returned, and
  let the caller have changed its edge rows (same number of rows, row \<open>i\<close> with its
  fields) so that field \<open>j\<close> of row \<open>i\<close> is the only field marked modified. Then
  \<^verbatim>\<open>commit_shard\<close> returns, \<^verbatim>\<open>edgeid\<close> is not empty, and the database afterwards is
  the database before with exactly field \<open>j\<close> of the row at position \<open>edgeid ! i\<close> of
  shard \<open>a\<close> replaced by the post-commit state of the local value (the same datum,
  flags cleared): every other field of that row, every other row of shard \<open>a\<close> and
  every other shard are as before.
\<close>

theorem commit_shard_roundtrip:
  assumes "get_shard_contents_adj_to db sid a = Inr (d, db1)"
    and "length rows = length (edge_data d)"
    and "i < length rows" and "j < length (row_values (rows ! i))"
    and "length (row_values (rows ! i)) = length (row_values (edge_data d ! i))"
    and "get_modified (row_values (rows ! i) ! j)"
    and "\<forall>i' j'. i' < length rows \<and> j' < length (row_values (rows ! i'))
                 \<and> get_modified (row_values (rows ! i') ! j') \<longrightarrow> i' = i \<and> j' = j"
  shows "\<exists>db2 d2. commit_shard db1 (d\<lparr>edge_data := rows\<rparr>) = Inr (db2, d2)
     \<and> edgeid d \<noteq> []
     \<and> a < length (shards db1)
     \<and> edgeid d ! i < length (edge_data (shards db1 ! a))
     \<and> j < length (row_values (edge_data (shards db1 ! a) ! (edgeid d ! i)))
     \<and> db2 = store_edge_field db1 a (edgeid d ! i) j (post_commit_state (row_values (rows ! i) ! j))
     \<and> row_values (edge_data (shards db2 ! a) ! (edgeid d ! i)) ! j
          = post_commit_state (row_values (rows ! i) ! j)
     \<and> val_data (row_values (edge_data (shards db2 ! a) ! (edgeid d ! i)) ! j)
          = val_data (row_values (rows ! i) ! j)
     \<and> (\<forall>j'. j' \<noteq> j \<longrightarrow>
           row_values (edge_data (shards db2 ! a) ! (edgeid d ! i)) ! j'
             = row_values (edge_data (shards db1 ! a) ! (edgeid d ! i)) ! j')
     \<and> (\<forall>p'. p' \<noteq> edgeid d ! i \<longrightarrow>
           edge_data (shards db2 ! a) ! p' = edge_data (shards db1 ! a) ! p')
     \<and> (\<forall>k. k \<noteq> a \<longrightarrow> shards db2 ! k = shards db1 ! k)
     \<and> length (edge_data (shards db2 ! a)) = length (edge_data (shards db1 ! a))
     \<and> edge (shards db2 ! a) = edge (shards db1 ! a)
     \<and> vertex (shards db2 ! a) = vertex (shards db1 ! a)
     \<and> vertex_data (shards db2 ! a) = vertex_data (shards db1 ! a)
     \<and> same_layout db1 db2"
proof -
  let ?v = "post_commit_state (row_values (rows ! i) ! j)"
  let ?db2 = "store_edge_field db1 a (edgeid d ! i) j ?v"
  note c = commit_shard_derived[OF assms]
  note p = store_edge_field_props[OF c(2,3,4), of ?v]
  have sl: "same_layout db1 ?db2"
    using same_layout_commit_shard[OF c(1)] .
  have vd: "val_data ?v = val_data (row_values (rows ! i) ! j)"
    by (simp add: post_commit_state_def)
  have ne: "edgeid d \<noteq> []"
  proof -
    note r = get_shard_contents_result[OF assms(1)]
    have "length (edgeid d) = length (edge_data d)"
      unfolding r(2) append_copies_new by simp
    then show ?thesis using assms(2,3) by auto
  qed
  show ?thesis
    using c p sl vd ne by simp
qed

theorem commit_shard_roundtrip_witness:
  "\<exists>d db1. get_shard_contents_adj_to db_loop 1 3 = Inr (d, db1)
     \<and> length [edited_row] = length (edge_data d)
     \<and> (0::nat) < length [edited_row]
     \<and> (0::nat) < length (row_values ([edited_row] ! 0))
     \<and> length (row_values ([edited_row] ! 0)) = length (row_values (edge_data d ! 0))
     \<and> get_modified (row_values ([edited_row] ! 0) ! 0)
     \<and> edgeid d = [0]
     \<and> (\<exists>db2 d2. commit_shard db1 (d\<lparr>edge_data := [edited_row]\<rparr>) = Inr (db2, d2)
           \<and> val_data (row_values (edge_data (shards db2 ! 3) ! 0) ! 0) = IntDatum 5
           \<and> row_values (edge_data (shards db2 ! 3) ! 0) ! 0
                = post_commit_state (row_values ([edited_row] ! 0) ! 0))"
proof -
  have "\<exists>d db1. get_shard_contents_adj_to db_loop 1 3 = Inr (d, db1)
      \<and> edge_data d = [\<lparr>row_values = [null_value], is_vertex = False\<rparr>] \<and> edgeid d = [0]"
    by (simp add: db_loop_def db_triangle_def db_edge12_def eval_defs)
  then obtain d db1 where g: "get_shard_contents_adj_to db_loop 1 3 = Inr (d, db1)"
    and ed: "edge_data d = [\<lparr>row_values = [null_value], is_vertex = False\<rparr>]"
    and ei: "edgeid d = [0]"
    by blast
  have h: "length [edited_row] = length (edge_data d)"
    "(0::nat) < length [edited_row]"
    "(0::nat) < length (row_values ([edited_row] ! 0))"
    "length (row_values ([edited_row] ! 0)) = length (row_values (edge_data d ! 0))"
    "get_modified (row_values ([edited_row] ! 0) ! 0)"
    by (simp_all add: ed edited_row_def get_modified_def)
  have o: "\<forall>i' j'. i' < length [edited_row] \<and> j' < length (row_values ([edited_row] ! i'))
                 \<and> get_modified (row_values ([edited_row] ! i') ! j') \<longrightarrow> i' = 0 \<and> j' = 0"
    by (auto simp: edited_row_def)
  have v: "val_data (row_values ([edited_row] ! 0) ! 0) = IntDatum 5"
    by (simp add: edited_row_def)
  from commit_shard_roundtrip[OF g h o] g h ei v show ?thesis
    by (intro exI[of _ d] exI[of _ db1]) auto
qed

end
